theory Spec2Isabelle
  imports Main "HOL-Library.Word"
begin

unbundle bit_operations_syntax

section \<open>Assets and the local copy operation of pkg/minikube/assets/vm_assets.go\<close>

text \<open>
  The Go file defines the interface \<^verbatim>\<open>CopyableFile\<close>, the struct \<^verbatim>\<open>BaseAsset\<close> with its
  four getters, the two variants \<^verbatim>\<open>FileAsset\<close> and \<^verbatim>\<open>MemoryAsset\<close>, and the function
  \<^verbatim>\<open>CopyFileLocal\<close>. Everything the file does goes through the packages \<^verbatim>\<open>os\<close>, \<^verbatim>\<open>io\<close>,
  \<^verbatim>\<open>path/filepath\<close>, \<^verbatim>\<open>strconv\<close> and \<^verbatim>\<open>github.com/pkg/errors\<close>. The first part of this
  theory is a model of the calls of those packages that the file uses; the second part
  is the translation of the file itself.
\<close>

subsection \<open>Errors\<close>

datatype errno = ENOENT | EACCES | EEXIST | ENOTDIR | EISDIR | ENOTEMPTY | EBADF | EIO | ENOSPC

datatype num_err = ErrSyntax | ErrRange

datatype fmt_arg = StrArg string | IntArg int

text \<open>
  Go error values. \<open>Wrapf cause format arg\<close> is the value of
  \<^verbatim>\<open>errors.Wrapf(cause, format, arg)\<close>: the format string and the argument are kept as
  they are passed, so that what a message interpolates can be read off the value.
\<close>

datatype error =
    OsError errno                  \<comment> \<open>an error of package os (a \<^verbatim>\<open>*PathError\<close>)\<close>
  | EOF                            \<comment> \<open>\<^verbatim>\<open>io.EOF\<close>\<close>
  | ErrShortWrite                  \<comment> \<open>\<^verbatim>\<open>io.ErrShortWrite\<close>\<close>
  | ErrInvalid                     \<comment> \<open>\<^verbatim>\<open>os.ErrInvalid\<close>, from a method called on a nil \<^verbatim>\<open>*File\<close>\<close>
  | NumError string string num_err \<comment> \<open>\<^verbatim>\<open>*strconv.NumError{Func, Num, Err}\<close>\<close>
  | ErrorsNew string               \<comment> \<open>\<^verbatim>\<open>errors.New(msg)\<close>\<close>
  | Wrapf error string fmt_arg

text \<open>A call either returns or panics (a nil dereference is a run-time panic in Go).\<close>

datatype 'a outcome = Return 'a | Panic

subsection \<open>The file system behind package os\<close>

type_synonym path = string
type_synonym ino = nat
type_synonym fd = nat
type_synonym FileMode = "32 word"

datatype inode_kind = Regular | Directory

record inode =
  kind :: inode_kind
  content :: string
  mode :: "32 word"

record ofile =
  h_ino :: ino
  h_off :: nat
  h_writable :: bool

datatype event =
    EvMkdirAll path
  | EvStat path
  | EvRemove path
  | EvCreate path
  | EvOpen path
  | EvFstat fd
  | EvChmod fd "32 word"
  | EvRead fd nat
  | EvWrite fd string
  | EvClose fd

text \<open>
  The state of the operating system as the program sees it:
  \<^item> \<open>names\<close> maps a path to an inode number (two paths may name one inode);
  \<^item> \<open>inodes\<close> holds the files and directories, which outlive their names while a
    handle is open on them; \<open>next_ino\<close> is the next number handed out;
  \<^item> \<open>handles\<close> is the table of open files, each with its own offset; \<open>next_fd\<close> is
    the next descriptor handed out;
  \<^item> \<open>tape\<close> is what the system answers to the calls to come, one entry a call:
    \<open>Some e\<close> refuses the call with \<open>e\<close> for a reason outside this model (access rights,
    a missing parent directory, a full disk, ...) and leaves the files as they are,
    \<open>None\<close> lets the call through; a tape that has run out lets every call through;
  \<^item> \<open>log\<close> is the list of the calls made so far, oldest first.
  Directories are not nested in this model and there is no umask: what depends on them
  is among the refusals the tape can give.
\<close>

record world =
  names :: "path \<rightharpoonup> ino"
  inodes :: "ino \<rightharpoonup> inode"
  next_ino :: ino
  handles :: "fd \<rightharpoonup> ofile"
  next_fd :: fd
  tape :: "errno option list"
  log :: "event list"

definition sys_enter :: "event \<Rightarrow> world \<Rightarrow> errno option \<times> world" where
  "sys_enter ev w =
     (case tape w of
        [] \<Rightarrow> (None, w\<lparr>log := log w @ [ev]\<rparr>)
      | x # xs \<Rightarrow> (x, w\<lparr>tape := xs, log := log w @ [ev]\<rparr>))"

definition node :: "world \<Rightarrow> path \<Rightarrow> (ino \<times> inode) option" where
  "node w p =
     (case names w p of
        None \<Rightarrow> None
      | Some i \<Rightarrow> (case inodes w i of None \<Rightarrow> None | Some n \<Rightarrow> Some (i, n)))"

definition ModePerm :: FileMode where
  "ModePerm = 0x1FF"  \<comment> \<open>octal 777\<close>

text \<open>
  \<^verbatim>\<open>syscallMode\<close> of package os: the nine permission bits of a \<^verbatim>\<open>FileMode\<close>, and its
  setuid (bit 23), setgid (bit 22) and sticky (bit 20) flags moved to their Unix places
  (octal 4000, 2000 and 1000).
\<close>

definition syscallMode :: "FileMode \<Rightarrow> 32 word" where
  "syscallMode m =
     (m AND ModePerm)
       OR (if bit m 23 then 0x800 else 0)
       OR (if bit m 22 then 0x400 else 0)
       OR (if bit m 20 then 0x200 else 0)"

record FileInfo =
  fi_size :: int
  fi_mode :: "32 word"
  fi_isdir :: bool

definition info_of :: "inode \<Rightarrow> FileInfo" where
  "info_of n = \<lparr>fi_size = int (length (content n)), fi_mode = mode n, fi_isdir = (kind n = Directory)\<rparr>"

text \<open>\<^verbatim>\<open>os.MkdirAll(path, perm)\<close>: nothing to do on a directory, an error on a file.\<close>

definition os_MkdirAll :: "path \<Rightarrow> FileMode \<Rightarrow> world \<Rightarrow> error option \<times> world" where
  "os_MkdirAll p perm w =
     (case sys_enter (EvMkdirAll p) w of
        (Some e, w1) \<Rightarrow> (Some (OsError e), w1)
      | (None, w1) \<Rightarrow>
          if p = [] then (Some (OsError ENOENT), w1)
          else (case node w1 p of
                  Some (i, n) \<Rightarrow>
                    if kind n = Directory then (None, w1) else (Some (OsError ENOTDIR), w1)
                | None \<Rightarrow>
                    (None, w1\<lparr>names := (names w1)(p \<mapsto> next_ino w1),
                               inodes := (inodes w1)(next_ino w1 \<mapsto>
                                  \<lparr>kind = Directory, content = [], mode = syscallMode perm\<rparr>),
                               next_ino := Suc (next_ino w1)\<rparr>)))"

text \<open>\<^verbatim>\<open>os.Stat(path)\<close>.\<close>

definition os_Stat :: "path \<Rightarrow> world \<Rightarrow> (error + FileInfo) \<times> world" where
  "os_Stat p w =
     (case sys_enter (EvStat p) w of
        (Some e, w1) \<Rightarrow> (Inl (OsError e), w1)
      | (None, w1) \<Rightarrow>
          (case node w1 p of
             None \<Rightarrow> (Inl (OsError ENOENT), w1)
           | Some (i, n) \<Rightarrow> (Inr (info_of n), w1)))"

text \<open>
  \<^verbatim>\<open>os.Remove(path)\<close> takes the name away; the inode stays for the handles that are open
  on it and for its other names.
\<close>

definition os_Remove :: "path \<Rightarrow> world \<Rightarrow> error option \<times> world" where
  "os_Remove p w =
     (case sys_enter (EvRemove p) w of
        (Some e, w1) \<Rightarrow> (Some (OsError e), w1)
      | (None, w1) \<Rightarrow>
          (case names w1 p of
             None \<Rightarrow> (Some (OsError ENOENT), w1)
           | Some i \<Rightarrow> (None, w1\<lparr>names := (names w1)(p := None)\<rparr>)))"

definition new_handle :: "ino \<Rightarrow> bool \<Rightarrow> world \<Rightarrow> world" where
  "new_handle i wr w =
     w\<lparr>handles := (handles w)(next_fd w \<mapsto> \<lparr>h_ino = i, h_off = 0, h_writable = wr\<rparr>),
       next_fd := Suc (next_fd w)\<rparr>"

text \<open>
  \<^verbatim>\<open>os.Create(path)\<close> opens with \<^verbatim>\<open>O_RDWR|O_CREATE|O_TRUNC\<close> and mode 0666: a file that is
  there is emptied and keeps its inode and mode, a file that is not there is made (0x1B6 is
  octal 666).
\<close>

definition os_Create :: "path \<Rightarrow> world \<Rightarrow> (error + fd) \<times> world" where
  "os_Create p w =
     (case sys_enter (EvCreate p) w of
        (Some e, w1) \<Rightarrow> (Inl (OsError e), w1)
      | (None, w1) \<Rightarrow>
          if p = [] then (Inl (OsError ENOENT), w1)
          else (case node w1 p of
                  Some (i, n) \<Rightarrow>
                    if kind n = Directory then (Inl (OsError EISDIR), w1)
                    else (Inr (next_fd w1),
                          new_handle i True (w1\<lparr>inodes := (inodes w1)(i \<mapsto> n\<lparr>content := []\<rparr>)\<rparr>))
                | None \<Rightarrow>
                    (Inr (next_fd w1),
                     new_handle (next_ino w1) True
                       (w1\<lparr>names := (names w1)(p \<mapsto> next_ino w1),
                           inodes := (inodes w1)(next_ino w1 \<mapsto>
                              \<lparr>kind = Regular, content = [], mode = syscallMode 0x1B6\<rparr>),
                           next_ino := Suc (next_ino w1)\<rparr>))))"

text \<open>\<^verbatim>\<open>os.Open(path)\<close> opens for reading only.\<close>

definition os_Open :: "path \<Rightarrow> world \<Rightarrow> (error + fd) \<times> world" where
  "os_Open p w =
     (case sys_enter (EvOpen p) w of
        (Some e, w1) \<Rightarrow> (Inl (OsError e), w1)
      | (None, w1) \<Rightarrow>
          (case node w1 p of
             None \<Rightarrow> (Inl (OsError ENOENT), w1)
           | Some (i, n) \<Rightarrow> (Inr (next_fd w1), new_handle i False w1)))"

definition open_file :: "world \<Rightarrow> fd \<Rightarrow> (ofile \<times> inode) option" where
  "open_file w d =
     (case handles w d of
        None \<Rightarrow> None
      | Some h \<Rightarrow> (case inodes w (h_ino h) of None \<Rightarrow> None | Some n \<Rightarrow> Some (h, n)))"

text \<open>
  The methods of \<^verbatim>\<open>*os.File\<close>. A \<^verbatim>\<open>*File\<close> is a pointer and may be nil, so the receiver is
  an \<open>fd option\<close>; on nil every method returns \<^verbatim>\<open>os.ErrInvalid\<close> without a system call.
\<close>

definition File_Stat :: "fd option \<Rightarrow> world \<Rightarrow> (error + FileInfo) \<times> world" where
  "File_Stat file w =
     (case file of
        None \<Rightarrow> (Inl ErrInvalid, w)
      | Some d \<Rightarrow>
          (case sys_enter (EvFstat d) w of
             (Some e, w1) \<Rightarrow> (Inl (OsError e), w1)
           | (None, w1) \<Rightarrow>
               (case open_file w1 d of
                  None \<Rightarrow> (Inl (OsError EBADF), w1)
                | Some (h, n) \<Rightarrow> (Inr (info_of n), w1))))"

definition File_Chmod :: "fd option \<Rightarrow> FileMode \<Rightarrow> world \<Rightarrow> error option \<times> world" where
  "File_Chmod file m w =
     (case file of
        None \<Rightarrow> (Some ErrInvalid, w)
      | Some d \<Rightarrow>
          (case sys_enter (EvChmod d m) w of
             (Some e, w1) \<Rightarrow> (Some (OsError e), w1)
           | (None, w1) \<Rightarrow>
               (case open_file w1 d of
                  None \<Rightarrow> (Some (OsError EBADF), w1)
                | Some (h, n) \<Rightarrow>
                    (None, w1\<lparr>inodes := (inodes w1)(h_ino h \<mapsto> n\<lparr>mode := syscallMode m\<rparr>)\<rparr>))))"

text \<open>
  \<open>write_at off bs old\<close> is the content after writing \<open>bs\<close> at offset \<open>off\<close> of \<open>old\<close>; a gap
  between the end of the file and the offset reads as zero bytes.
\<close>

definition write_at :: "nat \<Rightarrow> string \<Rightarrow> string \<Rightarrow> string" where
  "write_at off bs old =
     take off old @ replicate (off - length old) (CHR 0x00) @ bs @ drop (off + length bs) old"

definition File_Write :: "fd option \<Rightarrow> string \<Rightarrow> world \<Rightarrow> (nat \<times> error option) \<times> world" where
  "File_Write file bs w =
     (case file of
        None \<Rightarrow> ((0, Some ErrInvalid), w)
      | Some d \<Rightarrow>
          (case sys_enter (EvWrite d bs) w of
             (Some e, w1) \<Rightarrow> ((0, Some (OsError e)), w1)
           | (None, w1) \<Rightarrow>
               (case open_file w1 d of
                  None \<Rightarrow> ((0, Some (OsError EBADF)), w1)
                | Some (h, n) \<Rightarrow>
                    if \<not> h_writable h then ((0, Some (OsError EBADF)), w1)
                    else ((length bs, None),
                          w1\<lparr>inodes := (inodes w1)(h_ino h \<mapsto>
                                 n\<lparr>content := write_at (h_off h) bs (content n)\<rparr>),
                             handles := (handles w1)(d \<mapsto> h\<lparr>h_off := h_off h + length bs\<rparr>)\<rparr>))))"

text \<open>
  \<^verbatim>\<open>(*File).Read(p)\<close> with \<open>k = len(p)\<close>: the bytes read and the error. At the end of the
  file it returns no byte and \<^verbatim>\<open>io.EOF\<close>; with an empty buffer, no byte and no error.
\<close>

definition File_Read :: "fd option \<Rightarrow> nat \<Rightarrow> world \<Rightarrow> (string \<times> error option) \<times> world" where
  "File_Read file k w =
     (case file of
        None \<Rightarrow> (([], Some ErrInvalid), w)
      | Some d \<Rightarrow>
          (case sys_enter (EvRead d k) w of
             (Some e, w1) \<Rightarrow> (([], Some (OsError e)), w1)
           | (None, w1) \<Rightarrow>
               (case open_file w1 d of
                  None \<Rightarrow> (([], Some (OsError EBADF)), w1)
                | Some (h, n) \<Rightarrow>
                    if kind n = Directory then (([], Some (OsError EISDIR)), w1)
                    else if k = 0 then (([], None), w1)
                    else if drop (h_off h) (content n) = [] then (([], Some EOF), w1)
                    else ((take k (drop (h_off h) (content n)), None),
                          w1\<lparr>handles := (handles w1)(d \<mapsto>
                                 h\<lparr>h_off := h_off h + length (take k (drop (h_off h) (content n)))\<rparr>)\<rparr>))))"

definition File_Close :: "fd option \<Rightarrow> world \<Rightarrow> error option \<times> world" where
  "File_Close file w =
     (case file of
        None \<Rightarrow> (Some ErrInvalid, w)
      | Some d \<Rightarrow>
          (case sys_enter (EvClose d) w of
             (Some e, w1) \<Rightarrow> (Some (OsError e), w1)
           | (None, w1) \<Rightarrow>
               (case handles w1 d of
                  None \<Rightarrow> (Some (OsError EBADF), w1)
                | Some h \<Rightarrow> (None, w1\<lparr>handles := (handles w1)(d := None)\<rparr>))))"

subsection \<open>strconv.Atoi\<close>

text \<open>
  \<^verbatim>\<open>strconv.Atoi(s)\<close> is \<^verbatim>\<open>ParseInt(s, 10, 0)\<close> with the name of the function in the error
  changed (its fast path for short strings returns the same results), on a platform
  whose \<^verbatim>\<open>int\<close> has 64 bits.

  \<^verbatim>\<open>ParseUint\<close> reads the bytes from left to right into a \<^verbatim>\<open>uint64\<close>. At each byte it
  first refuses a byte that is no digit (value 0, \<^verbatim>\<open>ErrSyntax\<close>), then stops when the
  number read so far times ten, or that plus the digit, no longer fits 64 bits (value
  \<^verbatim>\<open>1<<64 - 1\<close>, \<^verbatim>\<open>ErrRange\<close>): an overflow is reported before a bad byte further to the
  right is seen.
\<close>

definition digit_val :: "char \<Rightarrow> nat option" where
  "digit_val c =
     (if (48::nat) \<le> of_char c \<and> of_char c \<le> (57::nat) then Some (of_char c - 48) else None)"

definition max_uint64 :: nat where
  "max_uint64 = 18446744073709551615"  \<comment> \<open>\<^verbatim>\<open>1<<64 - 1\<close>\<close>

definition uint64_cutoff :: nat where
  "uint64_cutoff = 1844674407370955162"  \<comment> \<open>\<^verbatim>\<open>maxUint64/10 + 1\<close>\<close>

fun ParseUint_loop :: "nat \<Rightarrow> string \<Rightarrow> nat \<times> num_err option" where
  "ParseUint_loop n [] = (n, None)"
| "ParseUint_loop n (c # cs) =
     (case digit_val c of
        None \<Rightarrow> (0, Some ErrSyntax)
      | Some d \<Rightarrow>
          if uint64_cutoff \<le> n then (max_uint64, Some ErrRange)
          else if max_uint64 < n * 10 + d then (max_uint64, Some ErrRange)
          else ParseUint_loop (n * 10 + d) cs)"

definition ParseUint :: "string \<Rightarrow> nat \<times> num_err option" where
  "ParseUint s = (if s = [] then (0, Some ErrSyntax) else ParseUint_loop 0 s)"

text \<open>
  \<^verbatim>\<open>ParseInt\<close> takes a leading sign off, has \<^verbatim>\<open>ParseUint\<close> read the rest, passes a syntax
  error on with value 0, and otherwise checks the range of an \<^verbatim>\<open>int64\<close>: out of it, the
  value is the largest \<^verbatim>\<open>int64\<close> of that sign and the error \<^verbatim>\<open>ErrRange\<close>.
\<close>

definition ParseInt :: "string \<Rightarrow> int \<times> num_err option" where
  "ParseInt s =
     (if s = [] then (0, Some ErrSyntax)
      else
        let neg = (hd s = CHR ''-'');
            body = (if hd s = CHR ''+'' \<or> hd s = CHR ''-'' then tl s else s)
        in case ParseUint body of
             (un, err) \<Rightarrow>
               if err = Some ErrSyntax then (0, Some ErrSyntax)
               else if \<not> neg \<and> 2 ^ 63 \<le> un then (2 ^ 63 - 1, Some ErrRange)
               else if neg \<and> 2 ^ 63 < un then (- (2 ^ 63), Some ErrRange)
               else (if neg then - int un else int un, None))"

definition Atoi :: "string \<Rightarrow> int \<times> error option" where
  "Atoi s =
     (case ParseInt s of
        (i, None) \<Rightarrow> (i, None)
      | (i, Some k) \<Rightarrow> (i, Some (NumError ''Atoi'' s k)))"

subsection \<open>filepath.Join\<close>

text \<open>
  \<^verbatim>\<open>filepath.Join(dir, name)\<close> on Unix: the elements from the first non-empty one on,
  joined by a slash and cleaned; the empty string when both are empty. \<^verbatim>\<open>Clean\<close>
  drops empty and \<^verbatim>\<open>.\<close> elements, lets \<^verbatim>\<open>..\<close> take away the element before it (at the
  root it is dropped, at the start of a relative path it is kept), and returns \<^verbatim>\<open>.\<close>
  for an empty result.
\<close>

fun split_sep :: "string \<Rightarrow> string list" where
  "split_sep [] = [[]]"
| "split_sep (c # cs) =
     (if c = CHR ''/'' then [] # split_sep cs
      else (case split_sep cs of [] \<Rightarrow> [[c]] | x # xs \<Rightarrow> (c # x) # xs))"

fun clean_elems :: "bool \<Rightarrow> string list \<Rightarrow> string list \<Rightarrow> string list" where
  "clean_elems rooted stack [] = rev stack"
| "clean_elems rooted stack (e # es) =
     (if e = [] \<or> e = ''.'' then clean_elems rooted stack es
      else if e = ''..'' then
        (case stack of
           [] \<Rightarrow> if rooted then clean_elems rooted [] es else clean_elems rooted [''..''] es
         | t # ts \<Rightarrow>
             if t = ''..'' then clean_elems rooted (''..'' # t # ts) es
             else clean_elems rooted ts es)
      else clean_elems rooted (e # stack) es)"

fun join_sep :: "string list \<Rightarrow> string" where
  "join_sep [] = []"
| "join_sep [e] = e"
| "join_sep (e # es) = e @ ''/'' @ join_sep es"

definition Clean :: "path \<Rightarrow> path" where
  "Clean p =
     (if p = [] then ''.''
      else
        let rooted = (hd p = CHR ''/'');
            out = join_sep (clean_elems rooted [] (split_sep p))
        in if rooted then ''/'' @ out else if out = [] then ''.'' else out)"

definition filepath_Join :: "path \<Rightarrow> path \<Rightarrow> path" where
  "filepath_Join a b =
     (if a \<noteq> [] then Clean (a @ ''/'' @ b)
      else if b \<noteq> [] then Clean b
      else [])"

subsection \<open>io.Reader values\<close>

text \<open>
  The field \<^verbatim>\<open>reader\<close> of \<^verbatim>\<open>BaseAsset\<close> is an \<^verbatim>\<open>io.Reader\<close>: nil, an open \<^verbatim>\<open>*os.File\<close>
  (what \<^verbatim>\<open>NewFileAsset\<close> stores), or a \<^verbatim>\<open>*bytes.Reader\<close> over a buffer with its position
  (what callers store in a memory asset). Calling \<^verbatim>\<open>Read\<close> on the nil interface is a
  nil dereference.
\<close>

datatype reader = NilReader | OsFile fd | BytesReader string nat

definition reader_Read ::
  "reader \<Rightarrow> nat \<Rightarrow> world \<Rightarrow> (string \<times> error option) outcome \<times> reader \<times> world" where
  "reader_Read r k w =
     (case r of
        NilReader \<Rightarrow> (Panic, r, w)
      | OsFile d \<Rightarrow> (case File_Read (Some d) k w of (res, w1) \<Rightarrow> (Return res, r, w1))
      | BytesReader buf pos \<Rightarrow>
          if length buf \<le> pos then (Return ([], Some EOF), r, w)
          else (Return (take k (drop pos buf), None),
                BytesReader buf (pos + length (take k (drop pos buf))), w))"

subsection \<open>BaseAsset and its getters\<close>

record BaseAsset =
  data :: string
  reader :: reader
  Length :: int
  AssetName :: string
  TargetDir :: string
  TargetName :: string
  Permissions :: string

definition GetAssetName :: "BaseAsset \<Rightarrow> string" where
  "GetAssetName b = AssetName b"

definition GetTargetDir :: "BaseAsset \<Rightarrow> string" where
  "GetTargetDir b = TargetDir b"

definition GetTargetName :: "BaseAsset \<Rightarrow> string" where
  "GetTargetName b = TargetName b"

definition GetPermissions :: "BaseAsset \<Rightarrow> string" where
  "GetPermissions b = Permissions b"

subsection \<open>FileAsset\<close>

definition uninitialized_msg :: string where
  "uninitialized_msg = ''Error attempting FileAsset.Read, FileAsset.reader uninitialized''"

text \<open>
  \<^verbatim>\<open>NewFileAsset\<close>: the struct literal leaves \<^verbatim>\<open>data\<close>, \<^verbatim>\<open>reader\<close> and \<^verbatim>\<open>Length\<close> at their
  zero values; the result is the error, or the asset with the open file as its reader.
\<close>

definition NewFileAsset ::
  "string \<Rightarrow> string \<Rightarrow> string \<Rightarrow> string \<Rightarrow> world \<Rightarrow> (error + BaseAsset) \<times> world" where
  "NewFileAsset assetName targetDir targetName permissions w =
     (let f = \<lparr>data = [], reader = NilReader, Length = 0, AssetName = assetName,
               TargetDir = targetDir, TargetName = targetName, Permissions = permissions\<rparr>
      in case os_Open (AssetName f) w of
           (Inl err, w1) \<Rightarrow>
             (Inl (Wrapf err ''Error opening file asset: %s'' (StrArg (AssetName f))), w1)
         | (Inr file, w1) \<Rightarrow> (Inr (f\<lparr>reader := OsFile file\<rparr>), w1))"

text \<open>
  \<^verbatim>\<open>(*FileAsset).GetLength\<close>: the deferred \<^verbatim>\<open>file.Close()\<close> runs on every return, on the
  nil file when the open failed, and its result is dropped.
\<close>

definition FileAsset_GetLength :: "BaseAsset \<Rightarrow> world \<Rightarrow> int \<times> world" where
  "FileAsset_GetLength f w =
     (case os_Open (AssetName f) w of
        (Inl err, w1) \<Rightarrow> (0, snd (File_Close None w1))
      | (Inr file, w1) \<Rightarrow>
          (case File_Stat (Some file) w1 of
             (Inl err, w2) \<Rightarrow> (0, snd (File_Close (Some file) w2))
           | (Inr fi, w2) \<Rightarrow> (fi_size fi, snd (File_Close (Some file) w2))))"

definition FileAsset_Read ::
  "BaseAsset \<Rightarrow> nat \<Rightarrow> world \<Rightarrow> (string \<times> error option) outcome \<times> BaseAsset \<times> world" where
  "FileAsset_Read f k w =
     (if reader f = NilReader then
        (Return ([], Some (ErrorsNew uninitialized_msg)), f, w)
      else (case reader_Read (reader f) k w of (res, r1, w1) \<Rightarrow> (res, f\<lparr>reader := r1\<rparr>, w1)))"

subsection \<open>MemoryAsset\<close>

definition MemoryAsset_GetLength :: "BaseAsset \<Rightarrow> int" where
  "MemoryAsset_GetLength m = Length m"

definition MemoryAsset_Read ::
  "BaseAsset \<Rightarrow> nat \<Rightarrow> world \<Rightarrow> (string \<times> error option) outcome \<times> BaseAsset \<times> world" where
  "MemoryAsset_Read m k w =
     (case reader_Read (reader m) k w of (res, r1, w1) \<Rightarrow> (res, m\<lparr>reader := r1\<rparr>, w1))"

subsection \<open>The interface CopyableFile\<close>

datatype CopyableFile = FileAsset BaseAsset | MemoryAsset BaseAsset

fun base :: "CopyableFile \<Rightarrow> BaseAsset" where
  "base (FileAsset b) = b"
| "base (MemoryAsset b) = b"

fun CopyableFile_Read ::
  "CopyableFile \<Rightarrow> nat \<Rightarrow> world \<Rightarrow> (string \<times> error option) outcome \<times> CopyableFile \<times> world" where
  "CopyableFile_Read (FileAsset b) k w =
     (case FileAsset_Read b k w of (res, b1, w1) \<Rightarrow> (res, FileAsset b1, w1))"
| "CopyableFile_Read (MemoryAsset b) k w =
     (case MemoryAsset_Read b k w of (res, b1, w1) \<Rightarrow> (res, MemoryAsset b1, w1))"

fun CopyableFile_GetLength :: "CopyableFile \<Rightarrow> world \<Rightarrow> int \<times> world" where
  "CopyableFile_GetLength (FileAsset b) w = FileAsset_GetLength b w"
| "CopyableFile_GetLength (MemoryAsset b) w = (MemoryAsset_GetLength b, w)"

subsection \<open>io.Copy\<close>

text \<open>
  \<^verbatim>\<open>io.Copy(dst, src)\<close> with a \<^verbatim>\<open>*os.File\<close> as \<open>dst\<close> and an asset as \<open>src\<close> (which has
  neither \<^verbatim>\<open>WriteTo\<close> nor is a file) is the loop of \<^verbatim>\<open>io.copyBuffer\<close> with a buffer of
  32 KiB: read a chunk, write it, stop at the first error; \<^verbatim>\<open>io.EOF\<close> from the reader
  ends the copy without error. The loop has no bound of its own (a file copied onto
  itself behind the reading position grows for ever), so not returning is \<open>None\<close>.
\<close>

definition copy_buf_size :: nat where
  "copy_buf_size = 32768"

partial_function (option) io_Copy ::
  "fd \<Rightarrow> CopyableFile \<Rightarrow> world \<Rightarrow> (error option outcome \<times> CopyableFile \<times> world) option" where
  "io_Copy dst src w =
     (case CopyableFile_Read src copy_buf_size w of
        (Panic, src1, w1) \<Rightarrow> Some (Panic, src1, w1)
      | (Return (buf, er), src1, w1) \<Rightarrow>
          if 0 < length buf then
            (case File_Write (Some dst) buf w1 of
               ((nw, Some ew), w2) \<Rightarrow> Some (Return (Some ew), src1, w2)
             | ((nw, None), w2) \<Rightarrow>
                 if length buf \<noteq> nw then Some (Return (Some ErrShortWrite), src1, w2)
                 else (case er of
                         Some e \<Rightarrow> Some (Return (if e = EOF then None else Some e), src1, w2)
                       | None \<Rightarrow> io_Copy dst src1 w2))
          else (case er of
                  Some e \<Rightarrow> Some (Return (if e = EOF then None else Some e), src1, w1)
                | None \<Rightarrow> io_Copy dst src1 w1))"

subsection \<open>CopyFileLocal\<close>

definition conv_format :: string where
  "conv_format = ''error converting permissions %s to integer''"

definition copy_error_format :: string where
  "copy_error_format =
     ''error copying file %s to target location:'' @ [CHR 0x0A] @
     ''do you have the correct permissions?  The none driver requires sudo for the ''
     @ [CHR 0x22] @ ''start'' @ [CHR 0x22] @ '' command''"

text \<open>
  The result is the returned error (\<open>None\<close> for nil) or a panic, with the asset and the
  system as the call leaves them; \<open>None\<close> at the top when the call does not return.
\<close>

definition CopyFileLocal ::
  "CopyableFile \<Rightarrow> world \<Rightarrow> (error option outcome \<times> CopyableFile \<times> world) option" where
  "CopyFileLocal f w =
     (case os_MkdirAll (GetTargetDir (base f)) ModePerm w of
        (Some err, w1) \<Rightarrow>
          Some (Return (Some (Wrapf err ''error making dirs for %s''
                  (StrArg (GetTargetDir (base f))))), f, w1)
      | (None, w1) \<Rightarrow>
          let targetPath = filepath_Join (GetTargetDir (base f)) (GetTargetName (base f));
              (removed, w3) =
                 (case os_Stat targetPath w1 of
                    (Inr fi, w2) \<Rightarrow> os_Remove targetPath w2
                  | (Inl err, w2) \<Rightarrow> (None, w2))
          in (case removed of
               Some err \<Rightarrow>
                 Some (Return (Some (Wrapf err ''error removing file %s'' (StrArg targetPath))),
                       f, w3)
             | None \<Rightarrow>
                 (case os_Create targetPath w3 of
                    (Inl err, w4) \<Rightarrow>
                      Some (Return (Some (Wrapf err ''error creating file at %s''
                              (StrArg targetPath))), f, w4)
                  | (Inr target, w4) \<Rightarrow>
                      (case Atoi (GetPermissions (base f)) of
                         (perms, Some err) \<Rightarrow>
                           Some (Return (Some (Wrapf err conv_format (IntArg perms))), f, w4)
                       | (perms, None) \<Rightarrow>
                           (case File_Chmod (Some target) (word_of_int perms) w4 of
                              (Some err, w5) \<Rightarrow>
                                Some (Return (Some (Wrapf err
                                        ''error changing file permissions for %s''
                                        (StrArg targetPath))), f, w5)
                            | (None, w5) \<Rightarrow>
                                (case io_Copy target f w5 of
                                   None \<Rightarrow> None
                                 | Some (Panic, f6, w6) \<Rightarrow> Some (Panic, f6, w6)
                                 | Some (Return (Some err), f6, w6) \<Rightarrow>
                                     Some (Return (Some (Wrapf err copy_error_format
                                             (StrArg targetPath))), f6, w6)
                                 | Some (Return None, f6, w6) \<Rightarrow>
                                     (case File_Close (Some target) w6 of
                                        (res, w7) \<Rightarrow> Some (Return res, f6, w7))))))))"

section \<open>Notions for the statements\<close>

text \<open>Two states of the system with the same files, names and handles.\<close>

definition same_files :: "world \<Rightarrow> world \<Rightarrow> bool" where
  "same_files w w1 \<longleftrightarrow>
     names w1 = names w \<and> inodes w1 = inodes w \<and> next_ino w1 = next_ino w \<and>
     handles w1 = handles w \<and> next_fd w1 = next_fd w"

text \<open>
  The bytes that a reader has still to yield: the rest of the buffer, or the content of
  the open file from the offset of the descriptor on.
\<close>

definition pending :: "reader \<Rightarrow> world \<Rightarrow> string" where
  "pending r w =
     (case r of
        NilReader \<Rightarrow> []
      | BytesReader buf pos \<Rightarrow> drop pos buf
      | OsFile d \<Rightarrow>
          (case open_file w d of None \<Rightarrow> [] | Some (h, n) \<Rightarrow> drop (h_off h) (content n)))"

text \<open>The calls that \<open>io_Copy\<close> makes: reads and writes on descriptors.\<close>

fun rw_event :: "event \<Rightarrow> bool" where
  "rw_event (EvRead d k) = True"
| "rw_event (EvWrite d bs) = True"
| "rw_event ev = False"

text \<open>
  What a run of \<open>io_Copy\<close> from the state \<open>w\<close> leaves, when the destination is the file
  \<open>j\<close> with inode \<open>nd\<close> and \<open>pend\<close> are the bytes the source had to yield: the names are
  as they were, the destination has got bytes appended and no other file has changed,
  the appended bytes are all of \<open>pend\<close> when the copy returns nil, and the calls were
  reads and writes.
\<close>

definition io_Copy_post ::
  "world \<Rightarrow> ino \<Rightarrow> inode \<Rightarrow> string \<Rightarrow> error option outcome \<times> CopyableFile \<times> world \<Rightarrow> bool" where
  "io_Copy_post w j nd pend res =
     (case res of (r, src1, w1) \<Rightarrow>
        names w1 = names w \<and> next_ino w1 = next_ino w \<and> next_fd w1 = next_fd w \<and>
        (\<exists>written evs.
           inodes w1 = (inodes w)(j \<mapsto> nd\<lparr>content := content nd @ written\<rparr>) \<and>
           (r = Return None \<longrightarrow> written = pend) \<and>
           log w1 = log w @ evs \<and> (\<forall>ev \<in> set evs. rw_event ev)))"

text \<open>The local variable \<^verbatim>\<open>targetPath\<close> of \<^verbatim>\<open>CopyFileLocal\<close>.\<close>

definition target_path :: "CopyableFile \<Rightarrow> path" where
  "target_path f = filepath_Join (GetTargetDir (base f)) (GetTargetName (base f))"

text \<open>
  The statements of \<^verbatim>\<open>CopyFileLocal\<close> up to \<^verbatim>\<open>os.Create\<close> (lines 117 to 130), taken on their
  own: the error that ends the function there, or the created file. The lemma
  \<open>CopyFileLocal_steps\<close> below shows that \<open>CopyFileLocal\<close> is these statements followed by
  the rest of its body.
\<close>

definition CopyFileLocal_prepare :: "CopyableFile \<Rightarrow> world \<Rightarrow> (error + fd) \<times> world" where
  "CopyFileLocal_prepare f w =
     (case os_MkdirAll (GetTargetDir (base f)) ModePerm w of
        (Some err, w1) \<Rightarrow>
          (Inl (Wrapf err ''error making dirs for %s'' (StrArg (GetTargetDir (base f)))), w1)
      | (None, w1) \<Rightarrow>
          let targetPath = filepath_Join (GetTargetDir (base f)) (GetTargetName (base f));
              (removed, w3) =
                 (case os_Stat targetPath w1 of
                    (Inr fi, w2) \<Rightarrow> os_Remove targetPath w2
                  | (Inl err, w2) \<Rightarrow> (None, w2))
          in (case removed of
               Some err \<Rightarrow>
                 (Inl (Wrapf err ''error removing file %s'' (StrArg targetPath)), w3)
             | None \<Rightarrow>
                 (case os_Create targetPath w3 of
                    (Inl err, w4) \<Rightarrow>
                      (Inl (Wrapf err ''error creating file at %s'' (StrArg targetPath)), w4)
                  | (Inr target, w4) \<Rightarrow> (Inr target, w4))))"

text \<open>The calls that take a path; the others take a descriptor.\<close>

fun path_event :: "event \<Rightarrow> bool" where
  "path_event (EvMkdirAll p) = True"
| "path_event (EvStat p) = True"
| "path_event (EvRemove p) = True"
| "path_event (EvCreate p) = True"
| "path_event (EvOpen p) = True"
| "path_event ev = False"

text \<open>
  A small system for the examples: one file \<^verbatim>\<open>config.yaml\<close> of ten bytes with mode 0644
  (hexadecimal 1A4), no open file, descriptors handed out from 3 on, and no refusal.
\<close>

definition demo_world :: world where
  "demo_world =
     \<lparr>names = [''config.yaml'' \<mapsto> 0],
      inodes = [0 \<mapsto> \<lparr>kind = Regular, content = ''key: value'', mode = 0x1A4\<rparr>],
      next_ino = 1, handles = Map.empty, next_fd = 3, tape = [], log = []\<rparr>"

text \<open>The asset that \<^verbatim>\<open>NewFileAsset\<close> returns for that file in that system.\<close>

definition demo_asset :: BaseAsset where
  "demo_asset =
     \<lparr>data = [], reader = OsFile 3, Length = 0, AssetName = ''config.yaml'',
      TargetDir = ''/tmp/out'', TargetName = ''config.yaml'', Permissions = ''0644''\<rparr>"

text \<open>The system after \<open>k\<close> calls of \<^verbatim>\<open>GetLength\<close> on a disk-backed asset.\<close>

fun GetLength_times :: "nat \<Rightarrow> BaseAsset \<Rightarrow> world \<Rightarrow> world" where
  "GetLength_times 0 f w = w"
| "GetLength_times (Suc k) f w = GetLength_times k f (snd (FileAsset_GetLength f w))"

text \<open>The system of the examples once \<^verbatim>\<open>NewFileAsset\<close> has opened \<^verbatim>\<open>config.yaml\<close>.\<close>

definition demo_opened :: world where
  "demo_opened = snd (NewFileAsset ''config.yaml'' ''/tmp/out'' ''config.yaml'' ''0644'' demo_world)"


text \<open>
  The system of the examples with the destination already there: the directory
  \<^verbatim>\<open>/tmp/out\<close> and in it a file \<^verbatim>\<open>config.yaml\<close> with other content.
\<close>

definition demo_target_world :: world where
  "demo_target_world =
     demo_opened
       \<lparr>names := (names demo_opened)(''/tmp/out'' \<mapsto> 1, ''/tmp/out/config.yaml'' \<mapsto> 2),
        inodes := (inodes demo_opened)
           (1 \<mapsto> \<lparr>kind = Directory, content = [], mode = 0x1ED\<rparr>,
            2 \<mapsto> \<lparr>kind = Regular, content = ''old: content, and longer'', mode = 0x1A4\<rparr>),
        next_ino := 3\<rparr>"

text \<open>
  The failures of \<^verbatim>\<open>Atoi\<close> read off the string. The unsigned part is the string without
  a leading sign, its leading digits are the digits before the first other byte, and
  their value is read in base ten. The parse fails on syntax when the unsigned part is
  empty, or holds a byte that is no digit while the digits before it still fit 64 bits;
  it fails on range when the leading digits do not fit 64 bits, or the unsigned part is
  all digits and the number is not an \<^verbatim>\<open>int\<close>.
\<close>

definition is_digit :: "char \<Rightarrow> bool" where
  "is_digit c = (digit_val c \<noteq> None)"

fun digits_value :: "nat \<Rightarrow> string \<Rightarrow> nat" where
  "digits_value n [] = n"
| "digits_value n (c # cs) =
     digits_value (n * 10 + (case digit_val c of None \<Rightarrow> 0 | Some d \<Rightarrow> d)) cs"

definition unsigned_part :: "string \<Rightarrow> string" where
  "unsigned_part s =
     (if s \<noteq> [] \<and> (hd s = CHR ''+'' \<or> hd s = CHR ''-'') then tl s else s)"

definition leading_digits :: "string \<Rightarrow> string" where
  "leading_digits s = takeWhile is_digit (unsigned_part s)"

definition syntax_failure :: "string \<Rightarrow> bool" where
  "syntax_failure s \<longleftrightarrow>
     unsigned_part s = [] \<or>
     (leading_digits s \<noteq> unsigned_part s \<and> digits_value 0 (leading_digits s) \<le> max_uint64)"

definition range_failure :: "string \<Rightarrow> bool" where
  "range_failure s \<longleftrightarrow>
     unsigned_part s \<noteq> [] \<and>
     (max_uint64 < digits_value 0 (leading_digits s) \<or>
      (leading_digits s = unsigned_part s \<and>
       (if hd s = CHR ''-'' then 2 ^ 63 < digits_value 0 (leading_digits s)
        else 2 ^ 63 \<le> digits_value 0 (leading_digits s))))"

definition saturated :: "string \<Rightarrow> int" where
  "saturated s = (if hd s = CHR ''-'' then - (2 ^ 63) else 2 ^ 63 - 1)"

section \<open>The system calls, one by one\<close>

lemma same_files_node: "same_files w w1 \<Longrightarrow> node w1 p = node w p"
  by (simp add: same_files_def node_def split: option.splits)

lemma same_files_open_file: "same_files w w1 \<Longrightarrow> open_file w1 d = open_file w d"
  by (simp add: same_files_def open_file_def split: option.splits)

lemma sys_enter_same: "sys_enter ev w = (x, w1) \<Longrightarrow> same_files w w1 \<and> log w1 = log w @ [ev]"
  by (auto simp: sys_enter_def same_files_def split: list.splits)

lemma os_Open_Inl:
  assumes "os_Open p w = (Inl e, w1)"
  shows "same_files w w1 \<and> log w1 = log w @ [EvOpen p] \<and> (\<exists>x. e = OsError x)"
proof (cases "sys_enter (EvOpen p) w")
  case (Pair x w0)
  with assms sys_enter_same [OF Pair] show ?thesis
    by (auto simp: os_Open_def split: option.splits)
qed

lemma os_Open_Inr:
  assumes "os_Open p w = (Inr d, w1)"
  shows "d = next_fd w \<and> next_fd w1 = Suc (next_fd w) \<and> names w1 = names w \<and> inodes w1 = inodes w
     \<and> next_ino w1 = next_ino w \<and> log w1 = log w @ [EvOpen p]
     \<and> (\<exists>i n. node w p = Some (i, n) \<and>
           handles w1 = (handles w)(next_fd w \<mapsto> \<lparr>h_ino = i, h_off = 0, h_writable = False\<rparr>))"
proof (cases "sys_enter (EvOpen p) w")
  case (Pair x w0)
  with assms sys_enter_same [OF Pair] same_files_node [of w w0 p] show ?thesis
    by (auto simp: os_Open_def new_handle_def same_files_def split: option.splits)
qed

lemma os_Open_absent: "node w p = None \<Longrightarrow> \<exists>e. fst (os_Open p w) = Inl (OsError e)"
proof (cases "os_Open p w")
  case (Pair r w1)
  assume "node w p = None"
  with Pair os_Open_Inr [of p w _ w1] os_Open_Inl [of p w _ w1] show ?thesis
    by (cases r) auto
qed

lemma os_MkdirAll_effect:
  assumes "os_MkdirAll p m w = (r, w1)"
  shows "log w1 = log w @ [EvMkdirAll p] \<and> handles w1 = handles w \<and> next_fd w1 = next_fd w
     \<and> (same_files w w1 \<or>
         (r = None \<and> names w1 = (names w)(p \<mapsto> next_ino w)
          \<and> inodes w1 = (inodes w)(next_ino w \<mapsto> \<lparr>kind = Directory, content = [], mode = syscallMode m\<rparr>)
          \<and> next_ino w1 = Suc (next_ino w)))
     \<and> (r = None \<longrightarrow> p \<noteq> [] \<and> (\<exists>i n. node w1 p = Some (i, n) \<and> kind n = Directory))
     \<and> (\<forall>e. r = Some e \<longrightarrow> same_files w w1 \<and> (\<exists>x. e = OsError x))"
proof (cases "sys_enter (EvMkdirAll p) w")
  case (Pair x w0)
  with assms sys_enter_same [OF Pair] same_files_node [of w w0 p] show ?thesis
    by (auto simp: os_MkdirAll_def same_files_def node_def split: option.splits if_splits)
qed

lemma os_Stat_effect:
  assumes "os_Stat p w = (r, w1)"
  shows "same_files w w1 \<and> log w1 = log w @ [EvStat p]
     \<and> (\<forall>fi. r = Inr fi \<longrightarrow> (\<exists>i n. node w p = Some (i, n)))"
proof (cases "sys_enter (EvStat p) w")
  case (Pair x w0)
  with assms sys_enter_same [OF Pair] same_files_node [of w w0 p] show ?thesis
    by (auto simp: os_Stat_def split: option.splits)
qed

lemma os_Remove_effect:
  assumes "os_Remove p w = (r, w1)"
  shows "log w1 = log w @ [EvRemove p] \<and> inodes w1 = inodes w \<and> next_ino w1 = next_ino w
     \<and> handles w1 = handles w \<and> next_fd w1 = next_fd w
     \<and> (r = None \<longrightarrow> names w1 = (names w)(p := None))
     \<and> (\<forall>e. r = Some e \<longrightarrow> same_files w w1 \<and> (\<exists>x. e = OsError x))"
proof (cases "sys_enter (EvRemove p) w")
  case (Pair x w0)
  with assms sys_enter_same [OF Pair] show ?thesis
    by (auto simp: os_Remove_def same_files_def split: option.splits)
qed

lemma os_Create_Inl:
  assumes "os_Create p w = (Inl e, w1)"
  shows "same_files w w1 \<and> log w1 = log w @ [EvCreate p] \<and> (\<exists>x. e = OsError x)"
proof (cases "sys_enter (EvCreate p) w")
  case (Pair x w0)
  with assms sys_enter_same [OF Pair] show ?thesis
    by (auto simp: os_Create_def split: option.splits if_splits)
qed

lemma not_Directory: "(kind n \<noteq> Directory) = (kind n = Regular)"
  by (cases "kind n") auto

lemma os_Create_Inr:
  assumes "os_Create p w = (Inr d, w1)"
  shows "d = next_fd w \<and> next_fd w1 = Suc (next_fd w) \<and> log w1 = log w @ [EvCreate p] \<and> p \<noteq> []
     \<and> ((node w p = None \<and> names w1 = (names w)(p \<mapsto> next_ino w)
          \<and> inodes w1 = (inodes w)(next_ino w \<mapsto>
                 \<lparr>kind = Regular, content = [], mode = syscallMode 0x1B6\<rparr>)
          \<and> next_ino w1 = Suc (next_ino w)
          \<and> handles w1 = (handles w)(next_fd w \<mapsto>
                 \<lparr>h_ino = next_ino w, h_off = 0, h_writable = True\<rparr>))
        \<or> (\<exists>j n. node w p = Some (j, n) \<and> kind n = Regular \<and> names w1 = names w
              \<and> inodes w1 = (inodes w)(j \<mapsto> n\<lparr>content := []\<rparr>)
              \<and> next_ino w1 = next_ino w
              \<and> handles w1 = (handles w)(next_fd w \<mapsto>
                     \<lparr>h_ino = j, h_off = 0, h_writable = True\<rparr>)))"
proof -
  obtain x w0 where se: "sys_enter (EvCreate p) w = (x, w0)"
    by (cases "sys_enter (EvCreate p) w")
  from sys_enter_same [OF se] have sf: "same_files w w0" and lg: "log w0 = log w @ [EvCreate p]"
    by simp_all
  from assms se have x: "x = None" and p: "p \<noteq> []"
    by (auto simp: os_Create_def split: option.splits if_splits)
  have nd: "node w0 p = node w p"
    using sf by (rule same_files_node)
  show ?thesis
  proof (cases "node w p")
    case None
    with assms se x p nd have "d = next_fd w0" and
      "w1 = new_handle (next_ino w0) True
         (w0\<lparr>names := (names w0)(p \<mapsto> next_ino w0),
             inodes := (inodes w0)(next_ino w0 \<mapsto>
                \<lparr>kind = Regular, content = [], mode = syscallMode 0x1B6\<rparr>),
             next_ino := Suc (next_ino w0)\<rparr>)"
      by (simp_all add: os_Create_def)
    with None sf lg p show ?thesis
      by (simp add: new_handle_def same_files_def)
  next
    case (Some a)
    obtain j n where a: "a = (j, n)" by (cases a)
    from Some a assms se x p nd have k: "kind n = Regular"
      by (cases "kind n") (simp_all add: os_Create_def)
    from Some a have nm: "names w p = Some j"
      by (auto simp: node_def split: option.splits)
    from Some a k assms se x p nd have "d = next_fd w0" and
      "w1 = new_handle j True (w0\<lparr>inodes := (inodes w0)(j \<mapsto> n\<lparr>content := []\<rparr>)\<rparr>)"
      by (simp_all add: os_Create_def)
    with Some a k sf lg p show ?thesis
      by (simp add: new_handle_def same_files_def)
  qed
qed

lemma File_Chmod_effect:
  assumes "File_Chmod (Some d) m w = (r, w1)"
  shows "log w1 = log w @ [EvChmod d m] \<and> names w1 = names w \<and> next_ino w1 = next_ino w
     \<and> handles w1 = handles w \<and> next_fd w1 = next_fd w
     \<and> (r = None \<longrightarrow> (\<exists>h n. open_file w d = Some (h, n)
            \<and> inodes w1 = (inodes w)(h_ino h \<mapsto> n\<lparr>mode := syscallMode m\<rparr>)))
     \<and> (\<forall>e. r = Some e \<longrightarrow> same_files w w1 \<and> (\<exists>x. e = OsError x))"
proof (cases "sys_enter (EvChmod d m) w")
  case (Pair x w0)
  with assms sys_enter_same [OF Pair] same_files_open_file [of w w0 d] show ?thesis
    by (auto simp: File_Chmod_def same_files_def split: option.splits)
qed

lemma File_Stat_effect:
  assumes "File_Stat (Some d) w = (r, w1)"
  shows "same_files w w1 \<and> log w1 = log w @ [EvFstat d]
     \<and> (\<forall>fi. r = Inr fi \<longrightarrow> (\<exists>h n. open_file w d = Some (h, n) \<and> fi = info_of n))"
proof (cases "sys_enter (EvFstat d) w")
  case (Pair x w0)
  with assms sys_enter_same [OF Pair] same_files_open_file [of w w0 d] show ?thesis
    by (auto simp: File_Stat_def split: option.splits)
qed

lemma File_Close_effect:
  assumes "File_Close (Some d) w = (r, w1)"
  shows "log w1 = log w @ [EvClose d] \<and> names w1 = names w \<and> inodes w1 = inodes w
     \<and> next_ino w1 = next_ino w \<and> next_fd w1 = next_fd w
     \<and> (handles w1 = handles w \<or> handles w1 = (handles w)(d := None))
     \<and> (r = None \<longrightarrow> handles w1 = (handles w)(d := None))"
proof (cases "sys_enter (EvClose d) w")
  case (Pair x w0)
  with assms sys_enter_same [OF Pair] show ?thesis
    by (auto simp: File_Close_def same_files_def split: option.splits)
qed

lemma File_Write_effect:
  assumes "File_Write (Some d) bs w = ((k, r), w1)"
  shows "log w1 = log w @ [EvWrite d bs] \<and> names w1 = names w
     \<and> next_ino w1 = next_ino w \<and> next_fd w1 = next_fd w
     \<and> (r = None \<longrightarrow> k = length bs \<and> (\<exists>h n. open_file w d = Some (h, n) \<and> h_writable h
            \<and> inodes w1 = (inodes w)(h_ino h \<mapsto> n\<lparr>content := write_at (h_off h) bs (content n)\<rparr>)
            \<and> handles w1 = (handles w)(d \<mapsto> h\<lparr>h_off := h_off h + length bs\<rparr>)))
     \<and> (\<forall>e. r = Some e \<longrightarrow> same_files w w1)"
proof (cases "sys_enter (EvWrite d bs) w")
  case (Pair x w0)
  with assms sys_enter_same [OF Pair] same_files_open_file [of w w0 d] show ?thesis
    by (auto simp: File_Write_def same_files_def split: option.splits if_splits)
qed

lemma File_Read_effect:
  assumes "File_Read (Some d) k w = ((bs, r), w1)"
  shows "log w1 = log w @ [EvRead d k] \<and> names w1 = names w \<and> inodes w1 = inodes w
     \<and> next_ino w1 = next_ino w \<and> next_fd w1 = next_fd w
     \<and> (\<forall>e. r = Some e \<longrightarrow> bs = [] \<and> same_files w w1 \<and> (e = EOF \<or> (\<exists>x. e = OsError x)))
     \<and> (r = Some EOF \<longrightarrow> (\<exists>h n. open_file w d = Some (h, n) \<and> drop (h_off h) (content n) = []))
     \<and> (r = None \<longrightarrow> 0 < k \<longrightarrow> bs \<noteq> [] \<and> (\<exists>h n. open_file w d = Some (h, n)
            \<and> bs = take k (drop (h_off h) (content n))
            \<and> handles w1 = (handles w)(d \<mapsto> h\<lparr>h_off := h_off h + length bs\<rparr>)))"
proof (cases "sys_enter (EvRead d k) w")
  case (Pair x w0)
  with assms sys_enter_same [OF Pair] same_files_open_file [of w w0 d] show ?thesis
    by (auto simp: File_Read_def same_files_def split: option.splits if_splits)
qed

lemma take_drop_min: "take k (drop a c) @ drop (a + min (length c - a) k) c = drop a c"
proof (cases "k \<le> length c - a")
  case True
  then have m: "min (length c - a) k = k"
    by simp
  have "take k (drop a c) @ drop (a + k) c = drop a c"
    by (metis append_take_drop_id drop_drop add.commute)
  with m show ?thesis by (simp only:)
next
  case False
  then show ?thesis by simp
qed

lemma take_drop_split: "drop a c = take k (drop a c) @ drop (a + length (take k (drop a c))) c"
  using take_drop_min [of k a c] by simp

lemma reader_Read_spec:
  assumes rd: "reader_Read r k w = (res, r1, w1)" and k: "0 < k"
  shows "names w1 = names w \<and> inodes w1 = inodes w \<and> next_ino w1 = next_ino w
     \<and> next_fd w1 = next_fd w
     \<and> (\<forall>d'. map_option h_ino (handles w1 d') = map_option h_ino (handles w d'))
     \<and> (\<forall>d'. r \<noteq> OsFile d' \<longrightarrow> handles w1 d' = handles w d')
     \<and> (\<forall>d. (r1 = OsFile d) = (r = OsFile d))
     \<and> (\<forall>d. r = OsFile d \<longrightarrow> log w1 = log w @ [EvRead d k])
     \<and> ((\<forall>d. r \<noteq> OsFile d) \<longrightarrow> log w1 = log w)
     \<and> ((res = Panic) = (r = NilReader))
     \<and> (\<forall>buf er. res = Return (buf, er) \<longrightarrow>
           (buf \<noteq> [] \<longrightarrow> er = None \<and> pending r w = buf @ pending r1 w1)
         \<and> (buf = [] \<longrightarrow> er \<noteq> None \<and> (er = Some EOF \<longrightarrow> pending r w = [])))"
proof (cases r)
  case NilReader
  with rd show ?thesis by (simp add: reader_Read_def)
next
  case (BytesReader b pos)
  with rd k show ?thesis
    by (auto simp: reader_Read_def pending_def take_drop_min split: if_splits)
next
  case (OsFile d)
  obtain bs er w0 where fr: "File_Read (Some d) k w = ((bs, er), w0)"
    by (cases "File_Read (Some d) k w") auto
  with rd OsFile have res: "res = Return (bs, er)" "r1 = r" "w1 = w0"
    by (simp_all add: reader_Read_def)
  note eff = File_Read_effect [OF fr]
  show ?thesis
  proof (cases er)
    case None
    with eff k obtain h n where hn: "open_file w d = Some (h, n)"
      "bs = take k (drop (h_off h) (content n))" "bs \<noteq> []"
      "handles w0 = (handles w)(d \<mapsto> h\<lparr>h_off := h_off h + length bs\<rparr>)"
      by auto
    from hn(1) have hd: "handles w d = Some h" "inodes w (h_ino h) = Some n"
      by (auto simp: open_file_def split: option.splits)
    have "pending r w = bs @ pending r w0"
      using hn hd eff OsFile take_drop_split [of "h_off h" "content n" k]
      by (simp add: pending_def open_file_def)
    with eff res OsFile None hn hd show ?thesis
      by auto
  next
    case (Some e)
    with eff have sf: "same_files w w0" and bs: "bs = []" by auto
    from Some eff have "e = EOF \<longrightarrow> pending r w = []"
      by (auto simp: pending_def OsFile)
    with eff res OsFile Some sf bs show ?thesis
      by (auto simp: same_files_def)
  qed
qed

lemma CopyableFile_Read_spec:
  assumes rd: "CopyableFile_Read src k w = (res, src1, w1)" and k: "0 < k"
  shows "names w1 = names w \<and> inodes w1 = inodes w \<and> next_ino w1 = next_ino w
     \<and> next_fd w1 = next_fd w
     \<and> (\<forall>d'. map_option h_ino (handles w1 d') = map_option h_ino (handles w d'))
     \<and> (\<forall>d'. reader (base src) \<noteq> OsFile d' \<longrightarrow> handles w1 d' = handles w d')
     \<and> (\<forall>d. (reader (base src1) = OsFile d) = (reader (base src) = OsFile d))
     \<and> (\<forall>d. reader (base src) = OsFile d \<longrightarrow> log w1 = log w @ [EvRead d k])
     \<and> ((\<forall>d. reader (base src) \<noteq> OsFile d) \<longrightarrow> log w1 = log w)
     \<and> (\<forall>buf er. res = Return (buf, er) \<longrightarrow>
           (buf \<noteq> [] \<longrightarrow> er = None
               \<and> pending (reader (base src)) w = buf @ pending (reader (base src1)) w1)
         \<and> (buf = [] \<longrightarrow> er \<noteq> None \<and> (er = Some EOF \<longrightarrow> pending (reader (base src)) w = [])))"
proof (cases src)
  case (FileAsset b)
  show ?thesis
  proof (cases "reader b = NilReader")
    case True
    with rd FileAsset show ?thesis
      by (auto simp: FileAsset_Read_def pending_def)
  next
    case False
    obtain r1 where rr: "reader_Read (reader b) k w = (res, r1, w1)" and s1: "src1 = FileAsset (b\<lparr>reader := r1\<rparr>)"
      using rd FileAsset False by (auto simp: FileAsset_Read_def split: prod.splits)
    from reader_Read_spec [OF rr k] FileAsset s1 show ?thesis
      by simp
  qed
next
  case (MemoryAsset b)
  obtain r1 where rr: "reader_Read (reader b) k w = (res, r1, w1)" and s1: "src1 = MemoryAsset (b\<lparr>reader := r1\<rparr>)"
    using rd MemoryAsset by (auto simp: MemoryAsset_Read_def split: prod.splits)
  from reader_Read_spec [OF rr k] MemoryAsset s1 show ?thesis
    by simp
qed

lemma write_at_end: "write_at (length old) bs old = old @ bs"
  by (simp add: write_at_def)

lemma pending_frame:
  assumes "\<forall>d. r = OsFile d \<longrightarrow> handles w2 d = handles w1 d
             \<and> (\<forall>h. handles w1 d = Some h \<longrightarrow> inodes w2 (h_ino h) = inodes w1 (h_ino h))"
  shows "pending r w2 = pending r w1"
  using assms by (cases r) (auto simp: pending_def open_file_def split: option.splits)

lemma io_Copy_appends:
  assumes "handles w dst = Some hdst" and "inodes w (h_ino hdst) = Some nd"
    and "h_off hdst = length (content nd)"
    and "\<forall>d h. reader (base src) = OsFile d \<longrightarrow> handles w d = Some h \<longrightarrow> h_ino h \<noteq> h_ino hdst"
  shows "\<exists>res. io_Copy dst src w = Some res
            \<and> io_Copy_post w (h_ino hdst) nd (pending (reader (base src)) w) res"
  using assms
proof (induction "length (pending (reader (base src)) w)" arbitrary: src w hdst nd rule: less_induct)
  case less
  let ?r = "reader (base src)"
  have nodst: "?r \<noteq> OsFile dst"
    using less.prems(1,4) by auto
  have triv: "(inodes w)(h_ino hdst \<mapsto> nd\<lparr>content := content nd @ []\<rparr>) = inodes w"
    using less.prems(2) by (simp add: map_upd_triv)
  obtain res src1 w1 where rd: "CopyableFile_Read src copy_buf_size w = (res, src1, w1)"
    by (cases "CopyableFile_Read src copy_buf_size w") auto
  have k: "0 < copy_buf_size" by (simp add: copy_buf_size_def)
  note sp = CopyableFile_Read_spec [OF rd k]
  have lg1: "\<exists>evs. log w1 = log w @ evs \<and> (\<forall>ev \<in> set evs. rw_event ev)"
  proof (cases "\<exists>d. ?r = OsFile d")
    case True
    then obtain d where "?r = OsFile d" ..
    with sp have "log w1 = log w @ [EvRead d copy_buf_size]" by simp
    then show ?thesis by simp
  next
    case False
    with sp have "log w1 = log w" by simp
    then show ?thesis by simp
  qed
  then obtain evs1 where evs1: "log w1 = log w @ evs1" "\<forall>ev \<in> set evs1. rw_event ev"
    by auto
  have stop: "io_Copy_post w (h_ino hdst) nd (pending ?r w) (r, src1, w1)"
    if "r = Return None \<longrightarrow> pending ?r w = []" for r
    using sp evs1 triv that unfolding io_Copy_post_def
    by (auto intro!: exI [of _ "[]"] exI [of _ evs1])
  show ?case
  proof (cases res)
    case Panic
    with rd have "io_Copy dst src w = Some (Panic, src1, w1)"
      by (subst io_Copy.simps) simp
    with stop [of Panic] show ?thesis by simp
  next
    case (Return be)
    obtain buf er where be: "be = (buf, er)" by (cases be)
    show ?thesis
    proof (cases "buf = []")
      case True
      with sp Return be obtain e where e: "er = Some e" and eof: "e = EOF \<longrightarrow> pending ?r w = []"
        by auto
      from rd Return be True e have "io_Copy dst src w
          = Some (Return (if e = EOF then None else Some e), src1, w1)"
        by (subst io_Copy.simps) simp
      with stop [of "Return (if e = EOF then None else Some e)"] eof show ?thesis
        by simp
    next
      case False
      with sp Return be have er: "er = None"
        and pend: "pending ?r w = buf @ pending (reader (base src1)) w1"
        by auto
      obtain nw ew w2 where wr: "File_Write (Some dst) buf w1 = ((nw, ew), w2)"
        by (cases "File_Write (Some dst) buf w1") auto
      note we = File_Write_effect [OF wr]
      show ?thesis
      proof (cases ew)
        case (Some e)
        with we have sf: "same_files w1 w2" by simp
        from rd Return be False Some wr have "io_Copy dst src w = Some (Return (Some e), src1, w2)"
          by (subst io_Copy.simps) simp
        moreover have "io_Copy_post w (h_ino hdst) nd (pending ?r w) (Return (Some e), src1, w2)"
          using sp evs1 triv sf we unfolding io_Copy_post_def same_files_def
          by (auto intro!: exI [of _ "[]"] exI [of _ "evs1 @ [EvWrite dst buf]"])
        ultimately show ?thesis by simp
      next
        case None
        have h1: "handles w1 dst = Some hdst"
          using sp nodst less.prems(1) by simp
        have i1: "inodes w1 = inodes w"
          using sp by simp
        from h1 i1 less.prems(2) have of1: "open_file w1 dst = Some (hdst, nd)"
          by (simp add: open_file_def)
        let ?hdst2 = "hdst\<lparr>h_off := h_off hdst + length buf\<rparr>"
        let ?nd2 = "nd\<lparr>content := content nd @ buf\<rparr>"
        from we None of1 less.prems(3) have nw: "nw = length buf"
          and i2: "inodes w2 = (inodes w)(h_ino hdst \<mapsto> ?nd2)"
          and h2: "handles w2 = (handles w1)(dst \<mapsto> ?hdst2)"
          by (auto simp: write_at_end i1)
        from rd Return be False None wr nw er have step: "io_Copy dst src w = io_Copy dst src1 w2"
          by (subst io_Copy.simps) simp
        have dist1: "\<forall>d h. reader (base src1) = OsFile d \<longrightarrow> handles w1 d = Some h \<longrightarrow> h_ino h \<noteq> h_ino hdst"
        proof (intro allI impI)
          fix d h assume a: "reader (base src1) = OsFile d" "handles w1 d = Some h"
          from a(1) sp have r: "?r = OsFile d" by simp
          from sp have "map_option h_ino (handles w1 d) = map_option h_ino (handles w d)" by simp
          with a(2) obtain h0 where "handles w d = Some h0" "h_ino h0 = h_ino h"
            by (cases "handles w d") auto
          with less.prems(4) r show "h_ino h \<noteq> h_ino hdst" by auto
        qed
        have nodst1: "reader (base src1) \<noteq> OsFile dst"
          using sp nodst by simp
        have pf: "pending (reader (base src1)) w2 = pending (reader (base src1)) w1"
        proof (rule pending_frame, intro allI impI conjI)
          fix d assume a: "reader (base src1) = OsFile d"
          with nodst1 have "d \<noteq> dst" by auto
          then show "handles w2 d = handles w1 d" by (simp add: h2)
          fix h assume "handles w1 d = Some h"
          with dist1 a have "h_ino h \<noteq> h_ino hdst" by simp
          then show "inodes w2 (h_ino h) = inodes w1 (h_ino h)" by (simp add: i2 i1)
        qed
        have dist2: "\<forall>d h. reader (base src1) = OsFile d \<longrightarrow> handles w2 d = Some h \<longrightarrow> h_ino h \<noteq> h_ino ?hdst2"
        proof (intro allI impI)
          fix d h assume a: "reader (base src1) = OsFile d" "handles w2 d = Some h"
          with nodst1 have "d \<noteq> dst" by auto
          with a(2) have "handles w1 d = Some h" by (simp add: h2)
          with dist1 a(1) show "h_ino h \<noteq> h_ino ?hdst2" by simp
        qed
        have less1: "length (pending (reader (base src1)) w2) < length (pending ?r w)"
          using pend pf False by simp
        have "\<exists>res. io_Copy dst src1 w2 = Some res
            \<and> io_Copy_post w2 (h_ino ?hdst2) ?nd2 (pending (reader (base src1)) w2) res"
          by (rule less.hyps [OF less1 _ _ _ dist2]) (simp_all add: h2 i2 less.prems(3))
        then obtain r src' w' where fin: "io_Copy dst src1 w2 = Some (r, src', w')"
          and post: "io_Copy_post w2 (h_ino hdst) ?nd2 (pending (reader (base src1)) w1) (r, src', w')"
          by (auto simp: pf)
        from post obtain written evs where p2: "names w' = names w2" "next_ino w' = next_ino w2"
          "next_fd w' = next_fd w2"
          "inodes w' = (inodes w2)(h_ino hdst \<mapsto> ?nd2\<lparr>content := content ?nd2 @ written\<rparr>)"
          "r = Return None \<longrightarrow> written = pending (reader (base src1)) w1"
          "log w' = log w2 @ evs" "\<forall>ev \<in> set evs. rw_event ev"
          unfolding io_Copy_post_def by auto
        have "io_Copy_post w (h_ino hdst) nd (pending ?r w) (r, src', w')"
          unfolding io_Copy_post_def using p2 sp we evs1 i2 pend
          by (auto intro!: exI [of _ "buf @ written"] exI [of _ "evs1 @ EvWrite dst buf # evs"])
        with fin step show ?thesis by simp
      qed
    qed
  qed
qed

lemma CopyFileLocal_steps:
  "CopyFileLocal f w =
     (case CopyFileLocal_prepare f w of
        (Inl e, w4) \<Rightarrow> Some (Return (Some e), f, w4)
      | (Inr target, w4) \<Rightarrow>
          (case Atoi (GetPermissions (base f)) of
             (perms, Some err) \<Rightarrow>
               Some (Return (Some (Wrapf err conv_format (IntArg perms))), f, w4)
           | (perms, None) \<Rightarrow>
               (case File_Chmod (Some target) (word_of_int perms) w4 of
                  (Some err, w5) \<Rightarrow>
                    Some (Return (Some (Wrapf err ''error changing file permissions for %s''
                            (StrArg (target_path f)))), f, w5)
                | (None, w5) \<Rightarrow>
                    (case io_Copy target f w5 of
                       None \<Rightarrow> None
                     | Some (Panic, f6, w6) \<Rightarrow> Some (Panic, f6, w6)
                     | Some (Return (Some err), f6, w6) \<Rightarrow>
                         Some (Return (Some (Wrapf err copy_error_format
                                 (StrArg (target_path f)))), f6, w6)
                     | Some (Return None, f6, w6) \<Rightarrow>
                         (case File_Close (Some target) w6 of
                            (res, w7) \<Rightarrow> Some (Return res, f6, w7))))))"
  unfolding CopyFileLocal_def CopyFileLocal_prepare_def target_path_def conv_format_def Let_def
  by (simp split: prod.splits option.splits sum.splits)

lemma prepare_cases:
  fixes f w
  defines "dir \<equiv> GetTargetDir (base f)" and "tp \<equiv> target_path f"
  obtains
    (mkdir_failed) e w1 where
      "os_MkdirAll dir ModePerm w = (Some e, w1)"
      "CopyFileLocal_prepare f w = (Inl (Wrapf e ''error making dirs for %s'' (StrArg dir)), w1)"
  | (remove_failed) w1 fi w2 e w3 where
      "os_MkdirAll dir ModePerm w = (None, w1)"
      "os_Stat tp w1 = (Inr fi, w2)"
      "os_Remove tp w2 = (Some e, w3)"
      "CopyFileLocal_prepare f w = (Inl (Wrapf e ''error removing file %s'' (StrArg tp)), w3)"
  | (removed) w1 fi w2 w3 where
      "os_MkdirAll dir ModePerm w = (None, w1)"
      "os_Stat tp w1 = (Inr fi, w2)"
      "os_Remove tp w2 = (None, w3)"
      "CopyFileLocal_prepare f w =
         (case os_Create tp w3 of
            (Inl err, w4) \<Rightarrow> (Inl (Wrapf err ''error creating file at %s'' (StrArg tp)), w4)
          | (Inr target, w4) \<Rightarrow> (Inr target, w4))"
  | (not_found) w1 e w2 where
      "os_MkdirAll dir ModePerm w = (None, w1)"
      "os_Stat tp w1 = (Inl e, w2)"
      "CopyFileLocal_prepare f w =
         (case os_Create tp w2 of
            (Inl err, w4) \<Rightarrow> (Inl (Wrapf err ''error creating file at %s'' (StrArg tp)), w4)
          | (Inr target, w4) \<Rightarrow> (Inr target, w4))"
proof -
  obtain r1 w1 where mk: "os_MkdirAll dir ModePerm w = (r1, w1)"
    by (cases "os_MkdirAll dir ModePerm w")
  show thesis
  proof (cases r1)
    case (Some e)
    with mk show thesis
      by (intro mkdir_failed [of e w1]) (simp_all add: CopyFileLocal_prepare_def dir_def)
  next
    case None
    obtain r2 w2 where st: "os_Stat tp w1 = (r2, w2)"
      by (cases "os_Stat tp w1")
    show thesis
    proof (cases r2)
      case (Inl e)
      with mk None st show thesis
        by (intro not_found [of w1 e w2])
           (simp_all add: CopyFileLocal_prepare_def dir_def tp_def target_path_def Let_def split: prod.splits sum.splits)
    next
      case (Inr fi)
      obtain r3 w3 where rm: "os_Remove tp w2 = (r3, w3)"
        by (cases "os_Remove tp w2")
      show thesis
      proof (cases r3)
        case (Some e)
        with mk None st Inr rm show thesis
          by (intro remove_failed [of w1 fi w2 e w3])
             (simp_all add: CopyFileLocal_prepare_def dir_def tp_def target_path_def Let_def split: prod.splits sum.splits)
      next
        case None': None
        with mk None st Inr rm show thesis
          by (intro removed [of w1 fi w2 w3])
             (simp_all add: CopyFileLocal_prepare_def dir_def tp_def target_path_def Let_def split: prod.splits sum.splits)
      qed
    qed
  qed
qed

lemma os_Create_Inr_summary:
  assumes "os_Create p w = (Inr d, w1)"
  shows "\<exists>j nj. handles w1 = (handles w)(next_fd w \<mapsto> \<lparr>h_ino = j, h_off = 0, h_writable = True\<rparr>)
           \<and> names w1 p = Some j \<and> inodes w1 j = Some nj \<and> kind nj = Regular \<and> content nj = []"
proof -
  from os_Create_Inr [OF assms] consider
    (fresh) "names w1 = (names w)(p \<mapsto> next_ino w)"
      "inodes w1 = (inodes w)(next_ino w \<mapsto> \<lparr>kind = Regular, content = [], mode = syscallMode 0x1B6\<rparr>)"
      "handles w1 = (handles w)(next_fd w \<mapsto> \<lparr>h_ino = next_ino w, h_off = 0, h_writable = True\<rparr>)"
  | (emptied) j n where "node w p = Some (j, n)" "kind n = Regular" "names w1 = names w"
      "inodes w1 = (inodes w)(j \<mapsto> n\<lparr>content := []\<rparr>)"
      "handles w1 = (handles w)(next_fd w \<mapsto> \<lparr>h_ino = j, h_off = 0, h_writable = True\<rparr>)"
    by blast
  then show ?thesis
  proof cases
    case fresh
    then show ?thesis
      by (intro exI [of _ "next_ino w"] exI [of _ "\<lparr>kind = Regular, content = [], mode = syscallMode 0x1B6\<rparr>"]) simp
  next
    case emptied
    from emptied(1) have "names w p = Some j"
      by (auto simp: node_def split: option.splits)
    with emptied show ?thesis
      by (intro exI [of _ j] exI [of _ "n\<lparr>content := []\<rparr>"]) simp
  qed
qed

lemma create_step:
  assumes cr: "(case os_Create tp w3 of
            (Inl err, w4) \<Rightarrow> (Inl (Wrapf err ''error creating file at %s'' (StrArg tp)), w4)
          | (Inr target, w4) \<Rightarrow> (Inr target, w4)) = (r, w4)"
  shows "log w4 = log w3 @ [EvCreate tp]
     \<and> (\<forall>e. r = Inl e \<longrightarrow> same_files w3 w4
            \<and> (\<exists>x. e = Wrapf (OsError x) ''error creating file at %s'' (StrArg tp)))
     \<and> (\<forall>target. r = Inr target \<longrightarrow> os_Create tp w3 = (Inr target, w4))"
proof (cases "os_Create tp w3")
  case (Pair r0 w0)
  show ?thesis
  proof (cases r0)
    case (Inl err)
    with Pair cr os_Create_Inl [of tp w3 err w0] show ?thesis by auto
  next
    case (Inr t)
    with Pair cr os_Create_Inr [of tp w3 t w0] show ?thesis by auto
  qed
qed


lemma prepare_not_found:
  assumes mk: "os_MkdirAll (GetTargetDir (base f)) ModePerm w = (None, w1)"
    and st: "os_Stat (target_path f) w1 = (Inl e, w2)"
    and pr: "CopyFileLocal_prepare f w = (r, w4)"
  shows "log w4 = log w @ [EvMkdirAll (GetTargetDir (base f)), EvStat (target_path f),
                          EvCreate (target_path f)]
     \<and> (\<forall>i n. node w1 (target_path f) = Some (i, n) \<longrightarrow> names w4 (target_path f) = Some i)"
proof (cases rule: prepare_cases [where f = f and w = w])
  case (mkdir_failed e w1')
  with mk show ?thesis by simp
next
  case (remove_failed w1' fi' w2' e w3)
  with mk st show ?thesis by simp
next
  case (removed w1' fi' w2' w3)
  with mk st show ?thesis by simp
next
  case (not_found w1' e' w2')
  with mk st have eq: "w1' = w1" "w2' = w2" by simp_all
  note m = os_MkdirAll_effect [OF mk]
  note s = os_Stat_effect [OF st]
  from not_found(3) pr eq have cs: "(case os_Create (target_path f) w2 of
            (Inl err, w4) \<Rightarrow> (Inl (Wrapf err ''error creating file at %s'' (StrArg (target_path f))), w4)
          | (Inr target, w4) \<Rightarrow> (Inr target, w4)) = (r, w4)"
    by simp
  note c = create_step [OF cs]
  have "\<forall>i n. node w1 (target_path f) = Some (i, n) \<longrightarrow> names w4 (target_path f) = Some i"
  proof (cases r)
    case (Inl err)
    with c s show ?thesis by (auto simp: same_files_def node_def split: option.splits)
  next
    case (Inr t)
    with c have "os_Create (target_path f) w2 = (Inr t, w4)" by simp
    from os_Create_Inr [OF this] s show ?thesis
      by (auto simp: same_files_def node_def split: option.splits)
  qed
  with m s c show ?thesis by simp
qed

lemma prepare_effect:
  assumes pr: "CopyFileLocal_prepare f w = (r, w4)"
  shows "(\<exists>evs. log w4 = log w @ evs \<and> (\<forall>ev \<in> set evs. path_event ev))
     \<and> (\<forall>e. r = Inl e \<longrightarrow> handles w4 = handles w \<and> next_fd w4 = next_fd w
           \<and> (\<exists>x. e = Wrapf (OsError x) ''error making dirs for %s'' (StrArg (GetTargetDir (base f)))
                \<or> e = Wrapf (OsError x) ''error removing file %s'' (StrArg (target_path f))
                \<or> e = Wrapf (OsError x) ''error creating file at %s'' (StrArg (target_path f))))
     \<and> (\<forall>target. r = Inr target \<longrightarrow> target = next_fd w \<and> next_fd w4 = Suc (next_fd w)
           \<and> (\<exists>j nj. handles w4 = (handles w)(next_fd w \<mapsto> \<lparr>h_ino = j, h_off = 0, h_writable = True\<rparr>)
                 \<and> names w4 (target_path f) = Some j \<and> inodes w4 j = Some nj
                 \<and> kind nj = Regular \<and> content nj = []))"
proof (cases rule: prepare_cases [where f = f and w = w])
  case (mkdir_failed e w1)
  from os_MkdirAll_effect [OF mkdir_failed(1)] mkdir_failed(2) pr show ?thesis
    by (auto simp: same_files_def)
next
  case (remove_failed w1 fi w2 e w3)
  from os_MkdirAll_effect [OF remove_failed(1)] os_Stat_effect [OF remove_failed(2)]
    os_Remove_effect [OF remove_failed(3)] remove_failed(4) pr show ?thesis
    by (auto simp: same_files_def)
next
  case (removed w1 fi w2 w3)
  note m = os_MkdirAll_effect [OF removed(1)]
  note s = os_Stat_effect [OF removed(2)]
  note rm = os_Remove_effect [OF removed(3)]
  from removed(4) pr have cs: "(case os_Create (target_path f) w3 of
            (Inl err, w4) \<Rightarrow> (Inl (Wrapf err ''error creating file at %s'' (StrArg (target_path f))), w4)
          | (Inr target, w4) \<Rightarrow> (Inr target, w4)) = (r, w4)"
    by simp
  note c = create_step [OF cs]
  have lg: "log w4 = log w @ [EvMkdirAll (GetTargetDir (base f)), EvStat (target_path f),
      EvRemove (target_path f), EvCreate (target_path f)]"
    using m s rm c by simp
  have h3: "handles w3 = handles w" "next_fd w3 = next_fd w"
    using m s rm by (simp_all add: same_files_def)
  show ?thesis
  proof (cases r)
    case (Inl err)
    with c h3 lg show ?thesis by (auto simp: same_files_def)
  next
    case (Inr t)
    with c have "os_Create (target_path f) w3 = (Inr t, w4)" by simp
    from os_Create_Inr [OF this] os_Create_Inr_summary [OF this] Inr h3 lg show ?thesis
      by simp
  qed
next
  case (not_found w1 e w2)
  note m = os_MkdirAll_effect [OF not_found(1)]
  note s = os_Stat_effect [OF not_found(2)]
  from not_found(3) pr have cs: "(case os_Create (target_path f) w2 of
            (Inl err, w4) \<Rightarrow> (Inl (Wrapf err ''error creating file at %s'' (StrArg (target_path f))), w4)
          | (Inr target, w4) \<Rightarrow> (Inr target, w4)) = (r, w4)"
    by simp
  note c = create_step [OF cs]
  have lg: "log w4 = log w @ [EvMkdirAll (GetTargetDir (base f)), EvStat (target_path f),
      EvCreate (target_path f)]"
    using m s c by simp
  have h3: "handles w2 = handles w" "next_fd w2 = next_fd w"
    using m s by (simp_all add: same_files_def)
  show ?thesis
  proof (cases r)
    case (Inl err)
    with c h3 lg show ?thesis by (auto simp: same_files_def)
  next
    case (Inr t)
    with c have "os_Create (target_path f) w2 = (Inr t, w4)" by simp
    from os_Create_Inr [OF this] os_Create_Inr_summary [OF this] Inr h3 lg show ?thesis
      by simp
  qed
qed

lemma rw_not_path: "rw_event ev \<Longrightarrow> \<not> path_event ev"
  by (cases ev) simp_all

lemma io_Copy_drained:
  assumes "pending (reader (base src)) w = []"
  shows "\<exists>r src1 w1 evs. io_Copy dst src w = Some (r, src1, w1) \<and> names w1 = names w
           \<and> inodes w1 = inodes w \<and> log w1 = log w @ evs \<and> (\<forall>ev \<in> set evs. rw_event ev)"
proof -
  obtain res src1 w1 where rd: "CopyableFile_Read src copy_buf_size w = (res, src1, w1)"
    by (cases "CopyableFile_Read src copy_buf_size w") auto
  have k: "0 < copy_buf_size" by (simp add: copy_buf_size_def)
  note sp = CopyableFile_Read_spec [OF rd k]
  have lg: "\<exists>evs. log w1 = log w @ evs \<and> (\<forall>ev \<in> set evs. rw_event ev)"
  proof (cases "\<exists>d. reader (base src) = OsFile d")
    case True
    then obtain d where "reader (base src) = OsFile d" ..
    with sp have "log w1 = log w @ [EvRead d copy_buf_size]" by simp
    then show ?thesis by simp
  next
    case False
    with sp have "log w1 = log w" by simp
    then show ?thesis by simp
  qed
  have "\<exists>r. io_Copy dst src w = Some (r, src1, w1)"
  proof (cases res)
    case Panic
    with rd show ?thesis by (subst io_Copy.simps) simp
  next
    case (Return be)
    obtain buf er where be: "be = (buf, er)" by (cases be)
    from sp Return be assms have "buf = []" by auto
    with sp Return be obtain e where "er = Some e" by auto
    with rd Return be \<open>buf = []\<close> show ?thesis by (subst io_Copy.simps) simp
  qed
  with sp lg show ?thesis by auto
qed

lemma CopyFileLocal_finish:
  assumes pr: "CopyFileLocal_prepare f w = (Inr target, w4)"
  shows "\<exists>res f1 w1 evs. CopyFileLocal f w = Some (res, f1, w1)
     \<and> names w1 = names w4 \<and> log w1 = log w4 @ evs \<and> (\<forall>ev \<in> set evs. \<not> path_event ev)
     \<and> (\<forall>v e. Atoi (GetPermissions (base f)) = (v, Some e) \<longrightarrow>
           res = Return (Some (Wrapf e conv_format (IntArg v))) \<and> f1 = f \<and> w1 = w4)
     \<and> (res = Return None \<longrightarrow> snd (Atoi (GetPermissions (base f))) = None
           \<and> (\<forall>j. names w4 (target_path f) = Some j \<longrightarrow>
                 (\<exists>nj. inodes w1 j = Some nj \<and> kind nj = Regular
                    \<and> mode nj = syscallMode (word_of_int (fst (Atoi (GetPermissions (base f)))))))
           \<and> (\<forall>j. names w4 (target_path f) = Some j \<longrightarrow>
                 (\<forall>d h. reader (base f) = OsFile d \<longrightarrow> handles w4 d = Some h \<longrightarrow> h_ino h \<noteq> j) \<longrightarrow>
                 (\<exists>nj. inodes w1 j = Some nj \<and> kind nj = Regular
                    \<and> content nj = pending (reader (base f)) w4
                    \<and> mode nj = syscallMode (word_of_int (fst (Atoi (GetPermissions (base f))))))))"
proof -
  let ?tp = "target_path f"
  let ?r = "reader (base f)"
  from prepare_effect [OF pr] obtain j nj where
    t: "target = next_fd w" and
    h4: "handles w4 = (handles w)(next_fd w \<mapsto> \<lparr>h_ino = j, h_off = 0, h_writable = True\<rparr>)" and
    n4: "names w4 ?tp = Some j" and i4: "inodes w4 j = Some nj" and
    k4: "kind nj = Regular" and c4: "content nj = []"
    by auto
  obtain v ae where at: "Atoi (GetPermissions (base f)) = (v, ae)"
    by (cases "Atoi (GetPermissions (base f))")
  show ?thesis
  proof (cases ae)
    case (Some e)
    with pr at have "CopyFileLocal f w = Some (Return (Some (Wrapf e conv_format (IntArg v))), f, w4)"
      by (simp add: CopyFileLocal_steps)
    with at Some show ?thesis
      by (intro exI [of _ "Return (Some (Wrapf e conv_format (IntArg v)))"] exI [of _ f]
            exI [of _ w4] exI [of _ "[]"]) simp
  next
    case None
    obtain rc w5 where ch: "File_Chmod (Some target) (word_of_int v) w4 = (rc, w5)"
      by (cases "File_Chmod (Some target) (word_of_int v) w4")
    note ce = File_Chmod_effect [OF ch]
    show ?thesis
    proof (cases rc)
      case (Some e)
      with pr at None ch have "CopyFileLocal f w
          = Some (Return (Some (Wrapf e ''error changing file permissions for %s'' (StrArg ?tp))), f, w5)"
        by (simp add: CopyFileLocal_steps)
      with at None ce show ?thesis
        by (intro exI [of _ "Return (Some (Wrapf e ''error changing file permissions for %s''
              (StrArg ?tp)))"] exI [of _ f] exI [of _ w5] exI [of _ "[EvChmod target (word_of_int v)]"])
           simp
    next
      case None': None
      let ?hj = "\<lparr>h_ino = j, h_off = 0, h_writable = True\<rparr>"
      let ?n5 = "nj\<lparr>mode := syscallMode (word_of_int v)\<rparr>"
      have of4: "open_file w4 target = Some (?hj, nj)"
        using h4 i4 t by (simp add: open_file_def)
      with ce None' have i5: "inodes w5 = (inodes w4)(j \<mapsto> ?n5)"
        by auto
      from ce have h5: "handles w5 = handles w4" and nm5: "names w5 = names w4"
        and lg5: "log w5 = log w4 @ [EvChmod target (word_of_int v)]"
        by simp_all
      have htgt: "handles w5 target = Some ?hj"
        using h5 h4 t by simp
      define aliased where "aliased \<longleftrightarrow> (\<exists>d h. ?r = OsFile d \<and> handles w5 d = Some h \<and> h_ino h = j)"
      have "\<exists>r f6 w6 evs. io_Copy target f w5 = Some (r, f6, w6) \<and> names w6 = names w5
              \<and> log w6 = log w5 @ evs \<and> (\<forall>ev \<in> set evs. rw_event ev)
              \<and> (r = Return None \<longrightarrow> \<not> aliased \<longrightarrow>
                    inodes w6 j = Some (?n5\<lparr>content := pending ?r w4\<rparr>))
              \<and> (\<exists>n6. inodes w6 j = Some n6 \<and> kind n6 = Regular
                    \<and> mode n6 = syscallMode (word_of_int v))"
      proof (cases aliased)
        case True
        then obtain d h where a: "?r = OsFile d" "handles w5 d = Some h" "h_ino h = j"
          unfolding aliased_def by auto
        then have "pending ?r w5 = []"
          using i5 c4 by (simp add: pending_def open_file_def)
        from io_Copy_drained [OF this, of target] True i5 k4 show ?thesis
          by auto
      next
        case False
        then have dist: "\<forall>d h. ?r = OsFile d \<longrightarrow> handles w5 d = Some h \<longrightarrow> h_ino h \<noteq> h_ino ?hj"
          unfolding aliased_def by auto
        have "\<exists>res. io_Copy target f w5 = Some res \<and> io_Copy_post w5 (h_ino ?hj) ?n5 (pending ?r w5) res"
          by (rule io_Copy_appends [OF htgt _ _ dist]) (simp_all add: i5 c4)
        then obtain r f6 w6 where io: "io_Copy target f w5 = Some (r, f6, w6)"
          and post: "io_Copy_post w5 j ?n5 (pending ?r w5) (r, f6, w6)"
          by auto
        have pf: "pending ?r w5 = pending ?r w4"
        proof (rule pending_frame, intro allI impI conjI)
          fix d assume a: "?r = OsFile d"
          show "handles w5 d = handles w4 d" by (simp add: h5)
          fix h assume "handles w4 d = Some h"
          with dist a h5 have "h_ino h \<noteq> j" by simp
          then show "inodes w5 (h_ino h) = inodes w4 (h_ino h)" by (simp add: i5)
        qed
        from post obtain written evs where p: "names w6 = names w5"
          "inodes w6 = (inodes w5)(j \<mapsto> ?n5\<lparr>content := content ?n5 @ written\<rparr>)"
          "r = Return None \<longrightarrow> written = pending ?r w5"
          "log w6 = log w5 @ evs" "\<forall>ev \<in> set evs. rw_event ev"
          unfolding io_Copy_post_def by auto
        from p c4 pf have "r = Return None \<longrightarrow> inodes w6 j = Some (?n5\<lparr>content := pending ?r w4\<rparr>)"
          by simp
        moreover from p k4 have "\<exists>n6. inodes w6 j = Some n6 \<and> kind n6 = Regular
                    \<and> mode n6 = syscallMode (word_of_int v)"
          by simp
        ultimately show ?thesis using io p by blast
      qed
      then obtain r f6 w6 evs where io: "io_Copy target f w5 = Some (r, f6, w6)"
        and nm6: "names w6 = names w5" and lg6: "log w6 = log w5 @ evs"
        and ev6: "\<forall>ev \<in> set evs. rw_event ev"
        and ct6: "r = Return None \<longrightarrow> \<not> aliased \<longrightarrow> inodes w6 j = Some (?n5\<lparr>content := pending ?r w4\<rparr>)"
        and md6: "\<exists>n6. inodes w6 j = Some n6 \<and> kind n6 = Regular
                    \<and> mode n6 = syscallMode (word_of_int v)"
        by blast
      from ev6 have np6: "\<forall>ev \<in> set evs. \<not> path_event ev"
        by (simp add: rw_not_path)
      have steps: "CopyFileLocal f w =
          (case r of
             Panic \<Rightarrow> Some (Panic, f6, w6)
           | Return None \<Rightarrow> (case File_Close (Some target) w6 of (res, w7) \<Rightarrow> Some (Return res, f6, w7))
           | Return (Some err) \<Rightarrow> Some (Return (Some (Wrapf err copy_error_format (StrArg ?tp))), f6, w6))"
        using pr at None ch None' io by (simp add: CopyFileLocal_steps split: outcome.splits option.splits)
      show ?thesis
      proof (cases r)
        case Panic
        with steps have "CopyFileLocal f w = Some (Panic, f6, w6)" by simp
        with at None nm6 nm5 lg6 lg5 np6 show ?thesis
          by (intro exI [of _ Panic] exI [of _ f6] exI [of _ w6]
                exI [of _ "EvChmod target (word_of_int v) # evs"]) simp
      next
        case (Return eo)
        show ?thesis
        proof (cases eo)
          case (Some err)
          with steps Return have "CopyFileLocal f w
              = Some (Return (Some (Wrapf err copy_error_format (StrArg ?tp))), f6, w6)" by simp
          with at None nm6 nm5 lg6 lg5 np6 show ?thesis
            by (intro exI [of _ "Return (Some (Wrapf err copy_error_format (StrArg ?tp)))"]
                  exI [of _ f6] exI [of _ w6] exI [of _ "EvChmod target (word_of_int v) # evs"]) simp
        next
          case None'': None
          obtain rcl w7 where cl: "File_Close (Some target) w6 = (rcl, w7)"
            by (cases "File_Close (Some target) w6")
          note cle = File_Close_effect [OF cl]
          from steps Return None'' cl have res: "CopyFileLocal f w = Some (Return rcl, f6, w7)"
            by simp
          have cont: "\<forall>j'. names w4 ?tp = Some j' \<longrightarrow>
                 (\<forall>d h. ?r = OsFile d \<longrightarrow> handles w4 d = Some h \<longrightarrow> h_ino h \<noteq> j') \<longrightarrow>
                 (\<exists>n. inodes w7 j' = Some n \<and> kind n = Regular
                    \<and> content n = pending ?r w4
                    \<and> mode n = syscallMode (word_of_int (fst (Atoi (GetPermissions (base f))))))"
          proof (intro allI impI)
            fix j' assume a: "names w4 ?tp = Some j'"
              "\<forall>d h. ?r = OsFile d \<longrightarrow> handles w4 d = Some h \<longrightarrow> h_ino h \<noteq> j'"
            with n4 have jj: "j' = j" by simp
            with a(2) h5 have "\<not> aliased" unfolding aliased_def by auto
            with ct6 Return None'' have "inodes w6 j = Some (?n5\<lparr>content := pending ?r w4\<rparr>)"
              by simp
            with cle jj k4 at show "\<exists>n. inodes w7 j' = Some n \<and> kind n = Regular
                    \<and> content n = pending ?r w4
                    \<and> mode n = syscallMode (word_of_int (fst (Atoi (GetPermissions (base f)))))"
              by simp
          qed
          have md: "\<forall>j'. names w4 ?tp = Some j' \<longrightarrow>
                 (\<exists>n. inodes w7 j' = Some n \<and> kind n = Regular
                    \<and> mode n = syscallMode (word_of_int (fst (Atoi (GetPermissions (base f))))))"
            using md6 cle n4 at by simp
          from res at None nm6 nm5 lg6 lg5 np6 cle cont md show ?thesis
            by (intro exI [of _ "Return rcl"] exI [of _ f6] exI [of _ w7]
                  exI [of _ "EvChmod target (word_of_int v) # evs @ [EvClose target]"]) simp
        qed
      qed
    qed
  qed
qed

section \<open>The assets\<close>

text \<open>
  C7. The length of a memory-backed asset is its field \<^verbatim>\<open>Length\<close>, whatever the buffer and
  the reader are, and the call leaves the system as it is; the four getters return the
  stored fields. The getters take no system state at all: they cannot have an effect.
\<close>

theorem memory_asset_getters_verbatim:
  "MemoryAsset_GetLength (m\<lparr>data := d, reader := r\<rparr>) = Length m
   \<and> CopyableFile_GetLength (MemoryAsset m) w = (Length m, w)
   \<and> GetAssetName m = AssetName m \<and> GetTargetDir m = TargetDir m
   \<and> GetTargetName m = TargetName m \<and> GetPermissions m = Permissions m"
  by (simp add: MemoryAsset_GetLength_def GetAssetName_def GetTargetDir_def GetTargetName_def
        GetPermissions_def)

text \<open>
  C8. \<^verbatim>\<open>MemoryAsset.Read\<close> on a nil reader panics, and panics in no other case; with the
  same nil reader \<^verbatim>\<open>FileAsset.Read\<close> returns its error, and it never panics.
\<close>

theorem memory_asset_read_nil_panics:
  "fst (MemoryAsset_Read (m\<lparr>reader := NilReader\<rparr>) k w) = Panic
   \<and> fst (FileAsset_Read (m\<lparr>reader := NilReader\<rparr>) k w)
        = Return ([], Some (ErrorsNew uninitialized_msg))
   \<and> (fst (MemoryAsset_Read m k w) = Panic) = (reader m = NilReader)
   \<and> fst (FileAsset_Read m k w) \<noteq> Panic"
  by (auto simp: MemoryAsset_Read_def FileAsset_Read_def reader_Read_def
           split: reader.splits prod.splits)

lemma File_Read_errors:
  "File_Read (Some d) k w = ((bs, Some e), w1) \<Longrightarrow> e = EOF \<or> (\<exists>x. e = OsError x)"
  using File_Read_effect [of d k w bs "Some e" w1] by simp

text \<open>
  C4. When the open fails, \<^verbatim>\<open>NewFileAsset\<close> returns that error wrapped with the asset
  name as the argument of the context, and it has made no other call; a path that names
  no file always fails so. When it succeeds the reader of the asset is the file just
  opened, the four strings are stored, and no \<^verbatim>\<open>Read\<close> on the asset, in any state of the
  system, returns the error of the uninitialized reader.
\<close>

theorem new_file_asset_opens:
  "(fst (os_Open assetName w) = Inl err \<longrightarrow>
      NewFileAsset assetName targetDir targetName permissions w
        = (Inl (Wrapf err ''Error opening file asset: %s'' (StrArg assetName)),
           snd (os_Open assetName w)))
   \<and> (node w assetName = None \<longrightarrow>
        (\<exists>e. fst (NewFileAsset assetName targetDir targetName permissions w)
           = Inl (Wrapf (OsError e) ''Error opening file asset: %s'' (StrArg assetName))))
   \<and> (fst (NewFileAsset assetName targetDir targetName permissions w) = Inr f \<longrightarrow>
        reader f = OsFile (next_fd w)
        \<and> AssetName f = assetName \<and> TargetDir f = targetDir
        \<and> TargetName f = targetName \<and> Permissions f = permissions
        \<and> (\<forall>k w1 bs. fst (FileAsset_Read f k w1)
               \<noteq> Return (bs, Some (ErrorsNew uninitialized_msg))))"
proof (intro conjI impI)
  assume "fst (os_Open assetName w) = Inl err"
  then show "NewFileAsset assetName targetDir targetName permissions w
        = (Inl (Wrapf err ''Error opening file asset: %s'' (StrArg assetName)),
           snd (os_Open assetName w))"
    by (cases "os_Open assetName w") (simp add: NewFileAsset_def)
next
  assume "node w assetName = None"
  then show "\<exists>e. fst (NewFileAsset assetName targetDir targetName permissions w)
           = Inl (Wrapf (OsError e) ''Error opening file asset: %s'' (StrArg assetName))"
    using os_Open_absent [of w assetName]
    by (cases "os_Open assetName w") (auto simp: NewFileAsset_def)
next
  assume a: "fst (NewFileAsset assetName targetDir targetName permissions w) = Inr f"
  obtain r w1 where op: "os_Open assetName w = (r, w1)"
    by (cases "os_Open assetName w")
  with a obtain d where r: "r = Inr d"
    and f: "f = \<lparr>data = [], reader = OsFile d, Length = 0, AssetName = assetName,
               TargetDir = targetDir, TargetName = targetName, Permissions = permissions\<rparr>"
    by (cases r) (auto simp: NewFileAsset_def)
  from os_Open_Inr [OF op [unfolded r]] have "d = next_fd w" by simp
  with f show "reader f = OsFile (next_fd w)" by simp
  from f show "AssetName f = assetName" "TargetDir f = targetDir" "TargetName f = targetName"
    "Permissions f = permissions"
    by simp_all
  show "\<forall>k w1 bs. fst (FileAsset_Read f k w1) \<noteq> Return (bs, Some (ErrorsNew uninitialized_msg))"
    using f by (auto simp: FileAsset_Read_def reader_Read_def split: prod.splits
                     dest: File_Read_errors)
qed

theorem new_file_asset_opens_witness:
  "NewFileAsset ''absent.yaml'' ''/tmp/out'' ''config.yaml'' ''0644'' demo_world
     = (Inl (Wrapf (OsError ENOENT) ''Error opening file asset: %s'' (StrArg ''absent.yaml'')),
        demo_world\<lparr>log := [EvOpen ''absent.yaml'']\<rparr>)
   \<and> fst (NewFileAsset ''config.yaml'' ''/tmp/out'' ''config.yaml'' ''0644'' demo_world)
       = Inr demo_asset
   \<and> (\<forall>k w1 bs. fst (FileAsset_Read demo_asset k w1)
          \<noteq> Return (bs, Some (ErrorsNew uninitialized_msg)))"
proof -
  have a: "fst (os_Open ''absent.yaml'' demo_world) = Inl (OsError ENOENT)"
    and b: "snd (os_Open ''absent.yaml'' demo_world) = demo_world\<lparr>log := [EvOpen ''absent.yaml'']\<rparr>"
    by (simp_all add: os_Open_def sys_enter_def node_def demo_world_def)
  have c: "fst (NewFileAsset ''config.yaml'' ''/tmp/out'' ''config.yaml'' ''0644'' demo_world)
       = Inr demo_asset"
    by (simp add: NewFileAsset_def os_Open_def sys_enter_def node_def new_handle_def
          demo_world_def demo_asset_def)
  from new_file_asset_opens [of "''absent.yaml''" demo_world "OsError ENOENT"
      "''/tmp/out''" "''config.yaml''" "''0644''"] a b
    new_file_asset_opens [of "''config.yaml''" demo_world _
      "''/tmp/out''" "''config.yaml''" "''0644''" demo_asset] c
  show ?thesis by simp
qed

lemma FileAsset_GetLength_effect:
  assumes gl: "FileAsset_GetLength f w = (k, w1)"
  shows "names w1 = names w \<and> inodes w1 = inodes w \<and> next_ino w1 = next_ino w
     \<and> next_fd w \<le> next_fd w1
     \<and> (\<forall>d. d \<noteq> next_fd w \<longrightarrow> handles w1 d = handles w d)
     \<and> (log w1 = log w @ [EvOpen (AssetName f)]
        \<or> log w1 = log w @ [EvOpen (AssetName f), EvFstat (next_fd w), EvClose (next_fd w)])
     \<and> (fst (os_Open (AssetName f) w) = Inr (next_fd w) \<longrightarrow>
          log w1 = log w @ [EvOpen (AssetName f), EvFstat (next_fd w), EvClose (next_fd w)])"
proof -
  obtain r wo where op: "os_Open (AssetName f) w = (r, wo)"
    by (cases "os_Open (AssetName f) w")
  show ?thesis
  proof (cases r)
    case (Inl e)
    with gl op have "w1 = wo"
      by (simp add: FileAsset_GetLength_def File_Close_def)
    with os_Open_Inl [OF op [unfolded Inl]] op Inl show ?thesis
      by (simp add: same_files_def)
  next
    case (Inr d)
    note o = os_Open_Inr [OF op [unfolded Inr]]
    obtain r2 w2 where fs: "File_Stat (Some d) wo = (r2, w2)"
      by (cases "File_Stat (Some d) wo")
    note s = File_Stat_effect [OF fs]
    obtain r3 w3 where cl: "File_Close (Some d) w2 = (r3, w3)"
      by (cases "File_Close (Some d) w2")
    note c = File_Close_effect [OF cl]
    from gl op Inr fs cl have "w1 = w3"
      by (cases r2) (simp_all add: FileAsset_GetLength_def)
    with o s c op Inr show ?thesis
      by (auto simp: same_files_def)
  qed
qed

text \<open>
  C5. \<^verbatim>\<open>FileAsset.GetLength\<close> first opens the path of the asset again. When that open
  fails the result is 0; when the open succeeds and the stat of the new file fails the
  result is 0; when both succeed the result is the number of bytes of the file that the
  path names. There is no other case: the function has no error result, it does not
  panic (the deferred close of a nil file only returns an error, which is dropped), and
  its result is never negative.
\<close>

theorem file_asset_length_size_or_zero:
  "(fst (os_Open (AssetName f) w) = Inl e \<longrightarrow> fst (FileAsset_GetLength f w) = 0)
   \<and> (fst (os_Open (AssetName f) w) = Inr file \<longrightarrow>
        fst (File_Stat (Some file) (snd (os_Open (AssetName f) w))) = Inl e \<longrightarrow>
        fst (FileAsset_GetLength f w) = 0)
   \<and> (fst (os_Open (AssetName f) w) = Inr file \<longrightarrow>
        fst (File_Stat (Some file) (snd (os_Open (AssetName f) w))) = Inr fi \<longrightarrow>
        (\<exists>i n. node w (AssetName f) = Some (i, n)
           \<and> fst (FileAsset_GetLength f w) = int (length (content n))))
   \<and> 0 \<le> fst (FileAsset_GetLength f w)
   \<and> (\<exists>rest. log (snd (FileAsset_GetLength f w)) = log w @ EvOpen (AssetName f) # rest)"
proof -
  obtain r wo where op: "os_Open (AssetName f) w = (r, wo)"
    by (cases "os_Open (AssetName f) w")
  have lg: "\<exists>rest. log (snd (FileAsset_GetLength f w)) = log w @ EvOpen (AssetName f) # rest"
    using FileAsset_GetLength_effect [of f w "fst (FileAsset_GetLength f w)" "snd (FileAsset_GetLength f w)"]
    by auto
  show ?thesis
  proof (cases r)
    case (Inl e')
    with op lg show ?thesis
      by (simp add: FileAsset_GetLength_def)
  next
    case (Inr d)
    note o = os_Open_Inr [OF op [unfolded Inr]]
    then obtain i n where nd: "node w (AssetName f) = Some (i, n)"
      and h: "handles wo = (handles w)(next_fd w \<mapsto> \<lparr>h_ino = i, h_off = 0, h_writable = False\<rparr>)"
      by auto
    from nd have "inodes w i = Some n"
      by (auto simp: node_def split: option.splits)
    with o h have of: "open_file wo d = Some (\<lparr>h_ino = i, h_off = 0, h_writable = False\<rparr>, n)"
      by (simp add: open_file_def)
    obtain r2 w2 where fs: "File_Stat (Some d) wo = (r2, w2)"
      by (cases "File_Stat (Some d) wo")
    note s = File_Stat_effect [OF fs]
    show ?thesis
    proof (cases r2)
      case (Inl e')
      with op Inr fs lg show ?thesis
        by (auto simp: FileAsset_GetLength_def)
    next
      case (Inr fi')
      with s of have "fi' = info_of n" by simp
      with op \<open>r = Inr d\<close> fs Inr nd lg show ?thesis
        by (auto simp: FileAsset_GetLength_def info_of_def)
    qed
  qed
qed

theorem file_asset_length_size_or_zero_witness:
  "fst (FileAsset_GetLength (demo_asset\<lparr>AssetName := ''absent.yaml''\<rparr>) demo_world) = 0
   \<and> fst (FileAsset_GetLength demo_asset (demo_world\<lparr>tape := [None, Some EIO]\<rparr>)) = 0
   \<and> node demo_world (AssetName demo_asset)
       = Some (0, \<lparr>kind = Regular, content = ''key: value'', mode = 0x1A4\<rparr>)
   \<and> fst (FileAsset_GetLength demo_asset demo_world) = 10"
proof -
  have a: "fst (os_Open (AssetName (demo_asset\<lparr>AssetName := ''absent.yaml''\<rparr>)) demo_world)
             = Inl (OsError ENOENT)"
    by (simp add: os_Open_def sys_enter_def node_def demo_world_def)
  have b: "fst (os_Open (AssetName demo_asset) (demo_world\<lparr>tape := [None, Some EIO]\<rparr>)) = Inr 3"
    "fst (File_Stat (Some 3) (snd (os_Open (AssetName demo_asset)
        (demo_world\<lparr>tape := [None, Some EIO]\<rparr>)))) = Inl (OsError EIO)"
    by (simp_all add: os_Open_def File_Stat_def sys_enter_def node_def new_handle_def
          demo_world_def demo_asset_def)
  have c: "fst (os_Open (AssetName demo_asset) demo_world) = Inr 3"
    "fst (File_Stat (Some 3) (snd (os_Open (AssetName demo_asset) demo_world)))
       = Inr \<lparr>fi_size = 10, fi_mode = 0x1A4, fi_isdir = False\<rparr>"
    by (simp_all add: os_Open_def File_Stat_def sys_enter_def node_def new_handle_def open_file_def
          info_of_def demo_world_def demo_asset_def)
  have n: "node demo_world (AssetName demo_asset)
       = Some (0, \<lparr>kind = Regular, content = ''key: value'', mode = 0x1A4\<rparr>)"
    by (simp add: node_def demo_world_def demo_asset_def)
  from file_asset_length_size_or_zero [of "demo_asset\<lparr>AssetName := ''absent.yaml''\<rparr>"
      demo_world "OsError ENOENT"] a
  have 1: "fst (FileAsset_GetLength (demo_asset\<lparr>AssetName := ''absent.yaml''\<rparr>) demo_world) = 0"
    by simp
  from file_asset_length_size_or_zero [of demo_asset "demo_world\<lparr>tape := [None, Some EIO]\<rparr>"
      "OsError EIO" 3] b
  have 2: "fst (FileAsset_GetLength demo_asset (demo_world\<lparr>tape := [None, Some EIO]\<rparr>)) = 0"
    by simp
  from file_asset_length_size_or_zero [of demo_asset demo_world _ 3
      "\<lparr>fi_size = 10, fi_mode = 0x1A4, fi_isdir = False\<rparr>"] c n
  have 3: "fst (FileAsset_GetLength demo_asset demo_world) = 10"
    by simp
  from 1 2 3 n show ?thesis by simp
qed

lemma open_file_eq:
  "handles w1 d = handles w d \<Longrightarrow> inodes w1 = inodes w \<Longrightarrow> open_file w1 d = open_file w d"
  by (simp add: open_file_def split: option.splits)

lemma File_Read_depends:
  assumes "tape w1 = tape w" and "open_file w1 d = open_file w d"
  shows "fst (File_Read (Some d) k w1) = fst (File_Read (Some d) k w)"
proof -
  obtain x wa where a: "sys_enter (EvRead d k) w = (x, wa)"
    by (cases "sys_enter (EvRead d k) w")
  obtain x1 wb where b: "sys_enter (EvRead d k) w1 = (x1, wb)"
    by (cases "sys_enter (EvRead d k) w1")
  from a b assms(1) have x: "x1 = x"
    by (auto simp: sys_enter_def split: list.splits)
  from sys_enter_same [OF a] have "open_file wa d = open_file w d"
    by (simp add: same_files_open_file)
  moreover from sys_enter_same [OF b] have "open_file wb d = open_file w1 d"
    by (simp add: same_files_open_file)
  ultimately have "open_file wb d = open_file wa d"
    using assms(2) by simp
  with a b x show ?thesis
    by (simp add: File_Read_def split: option.splits)
qed

lemma GetLength_times_frame:
  "names (GetLength_times k f w) = names w \<and> inodes (GetLength_times k f w) = inodes w
   \<and> next_fd w \<le> next_fd (GetLength_times k f w)
   \<and> (\<forall>d. d < next_fd w \<longrightarrow> handles (GetLength_times k f w) d = handles w d)"
proof (induction k arbitrary: w)
  case 0
  show ?case by simp
next
  case (Suc k)
  obtain n w1 where gl: "FileAsset_GetLength f w = (n, w1)"
    by (cases "FileAsset_GetLength f w")
  note e = FileAsset_GetLength_effect [OF gl]
  from Suc [of w1] gl e show ?case
    by auto
qed

text \<open>
  C10. For a disk-backed asset whose reader is a descriptor handed out earlier, any
  number of calls of \<^verbatim>\<open>GetLength\<close> leaves that descriptor with its file and its offset,
  leaves every file as it is, and so leaves the bytes still to be read unchanged: a
  \<^verbatim>\<open>Read\<close> after the calls returns what it would have returned before them, the
  answers of the system to come being the same. One call touches the path of the asset
  and the new descriptor it opens, nothing else.
\<close>

theorem file_asset_length_keeps_stream:
  assumes "reader f = OsFile d" and "d < next_fd w"
  shows "handles (GetLength_times n f w) d = handles w d
     \<and> inodes (GetLength_times n f w) = inodes w
     \<and> pending (reader f) (GetLength_times n f w) = pending (reader f) w
     \<and> (\<forall>k t. fst (FileAsset_Read f k ((GetLength_times n f w)\<lparr>tape := t\<rparr>))
               = fst (FileAsset_Read f k (w\<lparr>tape := t\<rparr>)))
     \<and> (\<exists>evs. log (snd (FileAsset_GetLength f w)) = log w @ evs
           \<and> set evs \<subseteq> {EvOpen (AssetName f), EvFstat (next_fd w), EvClose (next_fd w)})"
proof -
  let ?w = "GetLength_times n f w"
  from GetLength_times_frame [of n f w] assms(2)
  have h: "handles ?w d = handles w d" and i: "inodes ?w = inodes w"
    by simp_all
  then have of: "open_file ?w d = open_file w d"
    by (rule open_file_eq)
  then have p: "pending (reader f) ?w = pending (reader f) w"
    using assms(1) by (simp add: pending_def)
  have r: "fst (FileAsset_Read f k (?w\<lparr>tape := t\<rparr>)) = fst (FileAsset_Read f k (w\<lparr>tape := t\<rparr>))" for k t
  proof -
    have "open_file (?w\<lparr>tape := t\<rparr>) d = open_file (w\<lparr>tape := t\<rparr>) d"
      using h i by (intro open_file_eq) simp_all
    from File_Read_depends [OF _ this, of k] assms(1) show ?thesis
      by (auto simp: FileAsset_Read_def reader_Read_def split: prod.splits)
  qed
  from FileAsset_GetLength_effect [of f w "fst (FileAsset_GetLength f w)" "snd (FileAsset_GetLength f w)"]
  have "\<exists>evs. log (snd (FileAsset_GetLength f w)) = log w @ evs
           \<and> set evs \<subseteq> {EvOpen (AssetName f), EvFstat (next_fd w), EvClose (next_fd w)}"
    by auto
  with h i p r show ?thesis by simp
qed

theorem file_asset_length_keeps_stream_witness:
  "reader demo_asset = OsFile 3 \<and> 3 < next_fd demo_opened
   \<and> handles demo_opened 3 = Some \<lparr>h_ino = 0, h_off = 0, h_writable = False\<rparr>
   \<and> handles (GetLength_times (Suc (Suc 0)) demo_asset demo_opened) 3
        = Some \<lparr>h_ino = 0, h_off = 0, h_writable = False\<rparr>
   \<and> pending (reader demo_asset) (GetLength_times (Suc (Suc 0)) demo_asset demo_opened)
        = ''key: value''"
proof -
  have o: "demo_opened = demo_world\<lparr>handles := [3 \<mapsto> \<lparr>h_ino = 0, h_off = 0, h_writable = False\<rparr>],
             next_fd := 4, log := [EvOpen ''config.yaml'']\<rparr>"
    by (simp add: demo_opened_def NewFileAsset_def os_Open_def sys_enter_def node_def
          new_handle_def demo_world_def)
  have a: "reader demo_asset = OsFile 3" "3 < next_fd demo_opened"
    "handles demo_opened 3 = Some \<lparr>h_ino = 0, h_off = 0, h_writable = False\<rparr>"
    by (simp_all add: o demo_asset_def)
  have p: "pending (reader demo_asset) demo_opened = ''key: value''"
    by (simp add: o pending_def open_file_def demo_asset_def demo_world_def)
  from file_asset_length_keeps_stream [OF a(1) a(2), of "Suc (Suc 0)"] a p
  show ?thesis by simp
qed

section \<open>The local copy\<close>

lemma demo_opened_eq:
  "demo_opened = demo_world\<lparr>handles := [3 \<mapsto> \<lparr>h_ino = 0, h_off = 0, h_writable = False\<rparr>],
             next_fd := 4, log := [EvOpen ''config.yaml'']\<rparr>"
  by (simp add: demo_opened_def NewFileAsset_def os_Open_def sys_enter_def node_def
        new_handle_def demo_world_def)

lemma demo_target_path: "target_path (FileAsset (demo_asset\<lparr>Permissions := p\<rparr>)) = ''/tmp/out/config.yaml''"
  by (simp add: target_path_def filepath_Join_def Clean_def GetTargetDir_def GetTargetName_def
        demo_asset_def)

lemmas Atoi_eval = Atoi_def ParseInt_def ParseUint_def uint64_cutoff_def max_uint64_def
  digit_val_def Let_def

lemmas copy_eval = CopyFileLocal_def sys_enter_def node_def os_MkdirAll_def os_Stat_def
  os_Remove_def os_Create_def new_handle_def open_file_def File_Chmod_def File_Write_def
  File_Read_def File_Close_def write_at_def info_of_def GetTargetDir_def GetTargetName_def
  GetPermissions_def filepath_Join_def Clean_def Atoi_def ParseInt_def ParseUint_def
  uint64_cutoff_def max_uint64_def digit_val_def ModePerm_def
  syscallMode_def io_Copy.simps FileAsset_Read_def MemoryAsset_Read_def reader_Read_def
  copy_buf_size_def demo_asset_def demo_world_def demo_opened_eq demo_target_world_def

text \<open>
  The copy always returns: the endless run of \<open>io_Copy\<close> needs a source that grows
  while it is read, and \<^verbatim>\<open>CopyFileLocal\<close> starts the copy on a destination that is empty.
\<close>

lemma CopyFileLocal_returns: "\<exists>res f1 w1. CopyFileLocal f w = Some (res, f1, w1)"
proof (cases "CopyFileLocal_prepare f w")
  case (Pair r w4)
  show ?thesis
  proof (cases r)
    case (Inl e)
    with Pair show ?thesis by (simp add: CopyFileLocal_steps)
  next
    case (Inr target)
    with Pair CopyFileLocal_finish [of f w target w4] show ?thesis by blast
  qed
qed

text \<open>
  After any copy that returns nil, in any system and for any asset, the destination is
  a regular file whose mode is the permission string read in base ten.
\<close>

lemma copy_mode_is_decimal_parse:
  assumes ok: "CopyFileLocal f w = Some (Return None, f1, w2)"
  shows "\<exists>v j nj. Atoi (GetPermissions (base f)) = (v, None)
           \<and> names w2 (target_path f) = Some j \<and> inodes w2 j = Some nj
           \<and> kind nj = Regular \<and> mode nj = syscallMode (word_of_int v)"
proof -
  obtain r w4 where pr: "CopyFileLocal_prepare f w = (r, w4)"
    by (cases "CopyFileLocal_prepare f w")
  from pr ok obtain target where r: "r = Inr target"
    by (cases r) (simp_all add: CopyFileLocal_steps)
  from prepare_effect [OF pr] r obtain j where j: "names w4 (target_path f) = Some j"
    by auto
  from CopyFileLocal_finish [OF pr [unfolded r]] ok j
  have "names w2 = names w4" "snd (Atoi (GetPermissions (base f))) = None"
    "\<exists>nj. inodes w2 j = Some nj \<and> kind nj = Regular
        \<and> mode nj = syscallMode (word_of_int (fst (Atoi (GetPermissions (base f)))))"
    by auto
  with j show ?thesis
    by (cases "Atoi (GetPermissions (base f))") auto
qed

lemma copy_0644_mode_in_general:
  assumes "CopyFileLocal f w = Some (Return None, f1, w2)"
    and "GetPermissions (base f) = ''0644''"
  shows "\<exists>j nj. names w2 (target_path f) = Some j \<and> inodes w2 j = Some nj \<and> mode nj = 0x84"
proof -
  have "Atoi ''0644'' = (644, None)"
    by (simp add: Atoi_eval)
  moreover have "syscallMode (word_of_int 644) = 0x84"
    by (simp add: syscallMode_def ModePerm_def)
  ultimately show ?thesis
    using copy_mode_is_decimal_parse [OF assms(1)] assms(2) by auto
qed

text \<open>
  C1. The scenario, run: the file \<^verbatim>\<open>config.yaml\<close> is opened as an asset with the
  permission string \<^verbatim>\<open>0644\<close> and copied to \<^verbatim>\<open>/tmp/out\<close>. The copy returns nil, the
  destination exists and holds \<^verbatim>\<open>key: value\<close>; but \<^verbatim>\<open>Atoi\<close> reads the string in base ten,
  so the mode passed to \<^verbatim>\<open>Chmod\<close> is 644 decimal (octal 1204), and the permission bits of
  the file are octal 204 (hexadecimal 84), not octal 644 (hexadecimal 1A4).
\<close>

theorem copy_0644_gives_mode_0204:
  "(case CopyFileLocal (FileAsset demo_asset) demo_opened of
      None \<Rightarrow> False
    | Some (res, f1, w1) \<Rightarrow>
        res = Return None
        \<and> node w1 ''/tmp/out/config.yaml''
            = Some (2, \<lparr>kind = Regular, content = ''key: value'', mode = 0x84\<rparr>)
        \<and> EvChmod 4 644 \<in> set (log w1))
   \<and> Atoi ''0644'' = (644, None)
   \<and> syscallMode (word_of_int 644) = 0x84
   \<and> (0x84 :: 32 word) \<noteq> 0x1A4"
  by (simp add: copy_eval Let_def)

lemma ParseUint_loop_error:
  "ParseUint_loop n cs = (un, Some k) \<Longrightarrow>
     (k = ErrSyntax \<and> un = 0) \<or> (k = ErrRange \<and> un = max_uint64)"
  by (induction cs arbitrary: n) (auto split: option.splits if_splits)

lemma ParseUint_error:
  "ParseUint s = (un, Some k) \<Longrightarrow>
     (k = ErrSyntax \<and> un = 0) \<or> (k = ErrRange \<and> un = max_uint64)"
  by (auto simp: ParseUint_def split: if_splits dest: ParseUint_loop_error)

lemma ParseInt_error:
  assumes "ParseInt s = (v, Some k)"
  shows "(k = ErrSyntax \<and> v = 0) \<or> (k = ErrRange \<and> (v = 2 ^ 63 - 1 \<or> v = - (2 ^ 63)))"
  using assms by (auto simp: ParseInt_def Let_def split: if_splits prod.splits)

lemma Atoi_error_cases:
  assumes "Atoi s = (v, Some e)"
  shows "(e = NumError ''Atoi'' s ErrSyntax \<and> v = 0)
       \<or> (e = NumError ''Atoi'' s ErrRange \<and> (v = 2 ^ 63 - 1 \<or> v = - (2 ^ 63)))"
proof -
  obtain i ko where p: "ParseInt s = (i, ko)"
    by (cases "ParseInt s")
  with assms obtain k where "ko = Some k" "v = i" "e = NumError ''Atoi'' s k"
    by (cases ko) (auto simp: Atoi_def)
  with ParseInt_error [of s i k] p show ?thesis
    by auto
qed





text \<open>
  C6, with the value taken to be zero on every failure, is false for a string of digits
  that is out of range: \<^verbatim>\<open>Atoi\<close>
  then returns the largest \<^verbatim>\<open>int\<close>, not zero, and that is the number in the message.
\<close>

theorem permission_error_value_not_zero:
  "snd (Atoi ''9223372036854775808'') = Some (NumError ''Atoi'' ''9223372036854775808'' ErrRange)
   \<and> map_option fst (CopyFileLocal
         (FileAsset (demo_asset\<lparr>Permissions := ''9223372036854775808''\<rparr>)) demo_opened)
       = Some (Return (Some (Wrapf (NumError ''Atoi'' ''9223372036854775808'' ErrRange)
                 conv_format (IntArg 9223372036854775807))))
   \<and> IntArg 9223372036854775807 \<noteq> IntArg 0"
  by (simp add: copy_eval Let_def)

lemma digits_value_mono: "m \<le> digits_value m ds"
proof (induction ds arbitrary: m)
  case Nil
  show ?case by simp
next
  case (Cons c ds)
  have "m \<le> m * 10 + (case digit_val c of None \<Rightarrow> 0 | Some d \<Rightarrow> d)"
    by simp
  also have "\<dots> \<le> digits_value (m * 10 + (case digit_val c of None \<Rightarrow> 0 | Some d \<Rightarrow> d)) ds"
    by (rule Cons.IH)
  finally show ?case by simp
qed

lemma ParseUint_loop_spec:
  "n \<le> max_uint64 \<Longrightarrow>
   ParseUint_loop n cs =
     (if max_uint64 < digits_value n (takeWhile is_digit cs) then (max_uint64, Some ErrRange)
      else if takeWhile is_digit cs \<noteq> cs then (0, Some ErrSyntax)
      else (digits_value n cs, None))"
proof (induction cs arbitrary: n)
  case Nil
  then show ?case by simp
next
  case (Cons c cs)
  show ?case
  proof (cases "digit_val c")
    case None
    with Cons.prems show ?thesis
      by (simp add: is_digit_def)
  next
    case (Some d)
    then have dg: "is_digit c" by (simp add: is_digit_def)
    let ?n1 = "n * 10 + d"
    have big: "max_uint64 < digits_value ?n1 (takeWhile is_digit cs)" if "max_uint64 < ?n1"
      using that digits_value_mono [of ?n1 "takeWhile is_digit cs"] by simp
    show ?thesis
    proof (cases "uint64_cutoff \<le> n \<or> max_uint64 < ?n1")
      case True
      then have "max_uint64 < ?n1"
        by (auto simp: uint64_cutoff_def max_uint64_def)
      with big True Some dg show ?thesis
        by auto
    next
      case False
      then have le: "?n1 \<le> max_uint64" by simp
      from False Some have "ParseUint_loop n (c # cs) = ParseUint_loop ?n1 cs"
        by simp
      with Cons.IH [OF le] Some dg show ?thesis
        by simp
    qed
  qed
qed

lemma Atoi_spec:
  "Atoi s =
     (if syntax_failure s then (0, Some (NumError ''Atoi'' s ErrSyntax))
      else if range_failure s then (saturated s, Some (NumError ''Atoi'' s ErrRange))
      else (if hd s = CHR ''-'' then - int (digits_value 0 (unsigned_part s))
            else int (digits_value 0 (unsigned_part s)), None))"
proof (cases "unsigned_part s = []")
  case True
  then have "ParseInt s = (0, Some ErrSyntax)"
    by (auto simp: ParseInt_def ParseUint_def unsigned_part_def Let_def split: if_splits)
  with True show ?thesis
    by (simp add: Atoi_def syntax_failure_def)
next
  case False
  then have s: "s \<noteq> []" by (auto simp: unsigned_part_def)
  let ?b = "unsigned_part s" and ?v = "digits_value 0 (leading_digits s)"
  have pu: "ParseUint ?b =
     (if max_uint64 < ?v then (max_uint64, Some ErrRange)
      else if leading_digits s \<noteq> ?b then (0, Some ErrSyntax)
      else (digits_value 0 ?b, None))"
    using False ParseUint_loop_spec [of 0 ?b]
    by (simp add: ParseUint_def leading_digits_def)
  have pi: "ParseInt s =
     (case ParseUint ?b of
        (un, err) \<Rightarrow>
          if err = Some ErrSyntax then (0, Some ErrSyntax)
          else if hd s \<noteq> CHR ''-'' \<and> 2 ^ 63 \<le> un then (2 ^ 63 - 1, Some ErrRange)
          else if hd s = CHR ''-'' \<and> 2 ^ 63 < un then (- (2 ^ 63), Some ErrRange)
          else (if hd s = CHR ''-'' then - int un else int un, None))"
    using s by (simp add: ParseInt_def unsigned_part_def Let_def)
  consider (over) "max_uint64 < ?v"
    | (bad) "\<not> max_uint64 < ?v" "leading_digits s \<noteq> ?b"
    | (digits) "\<not> max_uint64 < ?v" "leading_digits s = ?b"
    by blast
  then show ?thesis
  proof cases
    case over
    with pu pi have "ParseInt s = (saturated s, Some ErrRange)"
      by (simp add: saturated_def max_uint64_def)
    with over False show ?thesis
      by (simp add: Atoi_def syntax_failure_def range_failure_def)
  next
    case bad
    with pu pi have "ParseInt s = (0, Some ErrSyntax)"
      by simp
    with bad False show ?thesis
      by (simp add: Atoi_def syntax_failure_def)
  next
    case digits
    with pu have "ParseUint ?b = (digits_value 0 ?b, None)"
      by simp
    with pi digits False show ?thesis
      by (auto simp: Atoi_def syntax_failure_def range_failure_def saturated_def)
  qed
qed

text \<open>
  C6, amended. When the destination has been created and the permission string does not
  parse, the copy returns the error of \<^verbatim>\<open>Atoi\<close> wrapped with the conversion format, and
  the argument of the format is the integer that \<^verbatim>\<open>Atoi\<close> returned, not the string. That
  integer is zero when the failure is one of syntax (the string is empty or only a
  sign, or a byte that is no digit is met while the digits before it still fit 64
  bits), and the largest \<^verbatim>\<open>int\<close>, or the smallest after a minus sign, when the failure is
  one of range (the leading digits do not fit 64 bits, or the string is a number that
  is not an \<^verbatim>\<open>int\<close>). A failure is always one of the two. (The string itself is in the
  wrapped \<^verbatim>\<open>NumError\<close> only.)
\<close>

theorem permission_error_embeds_parsed_value:
  fixes f :: CopyableFile
  defines "s \<equiv> GetPermissions (base f)"
  assumes "CopyFileLocal_prepare f w = (Inr target, w4)"
    and "snd (Atoi s) \<noteq> None"
  shows "CopyFileLocal f w
           = Some (Return (Some (Wrapf
                (NumError ''Atoi'' s (if syntax_failure s then ErrSyntax else ErrRange))
                conv_format
                (IntArg (if syntax_failure s then 0 else saturated s)))), f, w4)
       \<and> (syntax_failure s \<or> range_failure s)"
  using assms(2,3) unfolding s_def
  by (simp add: CopyFileLocal_steps Atoi_spec split: if_splits)

theorem permission_error_embeds_parsed_value_witness:
  "fst (CopyFileLocal_prepare (FileAsset (demo_asset\<lparr>Permissions := ''rw-r--r--''\<rparr>)) demo_opened)
     = Inr 4
   \<and> syntax_failure ''rw-r--r--''
   \<and> map_option fst (CopyFileLocal (FileAsset (demo_asset\<lparr>Permissions := ''rw-r--r--''\<rparr>))
        demo_opened)
       = Some (Return (Some (Wrapf (NumError ''Atoi'' ''rw-r--r--'' ErrSyntax) conv_format
                 (IntArg 0))))
   \<and> \<not> syntax_failure ''99999999999999999999x''
   \<and> range_failure ''99999999999999999999x''
   \<and> map_option fst (CopyFileLocal
        (FileAsset (demo_asset\<lparr>Permissions := ''99999999999999999999x''\<rparr>)) demo_opened)
       = Some (Return (Some (Wrapf (NumError ''Atoi'' ''99999999999999999999x'' ErrRange)
                 conv_format (IntArg 9223372036854775807))))"
proof -
  let ?f = "FileAsset (demo_asset\<lparr>Permissions := ''rw-r--r--''\<rparr>)"
  let ?g = "FileAsset (demo_asset\<lparr>Permissions := ''99999999999999999999x''\<rparr>)"
  have sf: "syntax_failure ''rw-r--r--''"
    by (simp add: syntax_failure_def unsigned_part_def leading_digits_def is_digit_def
          digit_val_def max_uint64_def)
  have rf: "\<not> syntax_failure ''99999999999999999999x''"
    "range_failure ''99999999999999999999x''"
    "saturated ''99999999999999999999x'' = 9223372036854775807"
    by (simp_all add: syntax_failure_def range_failure_def unsigned_part_def leading_digits_def
          is_digit_def digit_val_def max_uint64_def saturated_def)
  have a: "snd (Atoi (GetPermissions (base ?f))) \<noteq> None"
    "snd (Atoi (GetPermissions (base ?g))) \<noteq> None"
    by (simp_all add: Atoi_eval GetPermissions_def demo_asset_def)
  have gp: "GetPermissions (base ?f) = ''rw-r--r--''"
    "GetPermissions (base ?g) = ''99999999999999999999x''"
    by (simp_all add: GetPermissions_def)
  obtain w4 where p: "CopyFileLocal_prepare ?f demo_opened = (Inr 4, w4)"
    by (simp add: CopyFileLocal_prepare_def copy_eval Let_def)
  obtain w5 where q: "CopyFileLocal_prepare ?g demo_opened = (Inr 4, w5)"
    by (simp add: CopyFileLocal_prepare_def copy_eval Let_def)
  from permission_error_embeds_parsed_value [OF p a(1)]
    permission_error_embeds_parsed_value [OF q a(2)] p sf rf gp
  show ?thesis by simp
qed

text \<open>
  C9. When \<^verbatim>\<open>MkdirAll\<close> has succeeded and \<^verbatim>\<open>Stat\<close> returns an error, whatever the error,
  the copy makes no \<^verbatim>\<open>Remove\<close> call at all: its next call is the \<^verbatim>\<open>Create\<close> of the
  destination, and the calls after it are calls on descriptors. A file that the path
  named keeps the name.
\<close>

theorem failed_stat_skips_removal:
  assumes mk: "os_MkdirAll (GetTargetDir (base f)) ModePerm w = (None, w1)"
    and st: "fst (os_Stat (target_path f) w1) = Inl e"
  shows "\<exists>res f1 w2 rest.
           CopyFileLocal f w = Some (res, f1, w2)
         \<and> log w2 = log w @ [EvMkdirAll (GetTargetDir (base f)), EvStat (target_path f),
                              EvCreate (target_path f)] @ rest
         \<and> (\<forall>ev \<in> set rest. \<not> path_event ev)
         \<and> (\<forall>p. EvRemove p \<notin> set (drop (length (log w)) (log w2)))
         \<and> (\<forall>i n. node w1 (target_path f) = Some (i, n) \<longrightarrow> names w2 (target_path f) = Some i)"
proof -
  let ?dir = "GetTargetDir (base f)" and ?tp = "target_path f"
  obtain ws where st': "os_Stat ?tp w1 = (Inl e, ws)"
    using st by (cases "os_Stat ?tp w1") simp
  obtain r w4 where pr: "CopyFileLocal_prepare f w = (r, w4)"
    by (cases "CopyFileLocal_prepare f w")
  note nf = prepare_not_found [OF mk st' pr]
  have fin: "\<exists>res f1 w2 rest. CopyFileLocal f w = Some (res, f1, w2) \<and> names w2 = names w4
      \<and> log w2 = log w4 @ rest \<and> (\<forall>ev \<in> set rest. \<not> path_event ev)"
  proof (cases r)
    case (Inl e1)
    with pr have "CopyFileLocal f w = Some (Return (Some e1), f, w4)"
      by (simp add: CopyFileLocal_steps)
    then show ?thesis
      by (intro exI [of _ "Return (Some e1)"] exI [of _ f] exI [of _ w4] exI [of _ "[]"]) simp
  next
    case (Inr target)
    with pr CopyFileLocal_finish [of f w target w4] show ?thesis by blast
  qed
  then obtain res f1 w2 rest where r: "CopyFileLocal f w = Some (res, f1, w2)"
    "names w2 = names w4" "log w2 = log w4 @ rest" "\<forall>ev \<in> set rest. \<not> path_event ev"
    by blast
  from r(4) have "\<forall>p. EvRemove p \<notin> set rest"
    by fastforce
  with r nf show ?thesis
    by (intro exI [of _ res] exI [of _ f1] exI [of _ w2] exI [of _ rest]) simp
qed

theorem failed_stat_skips_removal_witness:
  "fst (os_MkdirAll ''/tmp/out'' ModePerm (demo_target_world\<lparr>tape := [None, Some EACCES]\<rparr>))
     = None
   \<and> fst (os_Stat ''/tmp/out/config.yaml''
        (snd (os_MkdirAll ''/tmp/out'' ModePerm (demo_target_world\<lparr>tape := [None, Some EACCES]\<rparr>))))
     = Inl (OsError EACCES)
   \<and> (\<exists>res f1 w2 rest.
         CopyFileLocal (FileAsset demo_asset) (demo_target_world\<lparr>tape := [None, Some EACCES]\<rparr>)
           = Some (res, f1, w2)
       \<and> log w2 = [EvOpen ''config.yaml'', EvMkdirAll ''/tmp/out'', EvStat ''/tmp/out/config.yaml'',
                    EvCreate ''/tmp/out/config.yaml''] @ rest
       \<and> names w2 ''/tmp/out/config.yaml'' = Some 2)"
proof -
  let ?w = "demo_target_world\<lparr>tape := [None, Some EACCES]\<rparr>"
  let ?f = "FileAsset demo_asset"
  have d: "GetTargetDir (base ?f) = ''/tmp/out''"
    by (simp add: GetTargetDir_def demo_asset_def)
  have t: "target_path ?f = ''/tmp/out/config.yaml''"
    using demo_target_path [of "''0644''"] by (simp add: demo_asset_def)
  obtain w1 where mk: "os_MkdirAll ''/tmp/out'' ModePerm ?w = (None, w1)"
    and w1: "w1 = demo_target_world\<lparr>tape := [Some EACCES], log := [EvOpen ''config.yaml'', EvMkdirAll ''/tmp/out'']\<rparr>"
    by (simp add: os_MkdirAll_def sys_enter_def node_def demo_target_world_def demo_opened_eq
          demo_world_def)
  have st: "fst (os_Stat ''/tmp/out/config.yaml'' w1) = Inl (OsError EACCES)"
    by (simp add: w1 os_Stat_def sys_enter_def)
  have nd: "node w1 ''/tmp/out/config.yaml''
      = Some (2, \<lparr>kind = Regular, content = ''old: content, and longer'', mode = 0x1A4\<rparr>)"
    by (simp add: w1 node_def demo_target_world_def demo_opened_eq demo_world_def)
  have lg: "log ?w = [EvOpen ''config.yaml'']"
    by (simp add: demo_target_world_def demo_opened_eq demo_world_def)
  from failed_stat_skips_removal [of ?f ?w w1 "OsError EACCES", unfolded d t, OF mk st] nd lg mk st
  show ?thesis
    by auto
qed




end
